theory Spec2Isabelle
  imports Complex_Main "HOL-Library.Sublist" "HOL-Library.Char_ord" "HOL-Library.List_Lexorder"
begin

section \<open>JavaScript values\<close>

text \<open>
  The adapter receives untyped JSON. A value is one of the JSON shapes, or \<open>undefined\<close>
  (what reading an absent property yields). An object is its list of own properties in
  insertion order; keys are assumed distinct, as in a JavaScript object. Strings are lists
  of 8-bit code units (the Latin-1 range of JavaScript's UTF-16 code units), so
  \<open>length\<close> is the \<open>.length\<close> of such a string.

  Numbers keep their mathematical value as a rational, with \<open>NaN\<close> and the two infinities;
  rounding to binary64 and the sign of zero are outside the model.
\<close>

datatype jsnum = NaN | PosInf | NegInf | Fin rat

datatype jsval =
    JUndefined
  | JNull
  | JBool bool
  | JNum jsnum
  | JStr string
  | JArr "jsval list"
  | JObj "(string \<times> jsval) list"

text \<open>
  Exceptions are values. \<open>TypeError\<close> is what a property read on \<open>null\<close>, a call of
  something that is not a function, or a failed conversion to a primitive raises;
  \<open>RangeError\<close> is what \<open>Date.prototype.toISOString\<close> raises on an invalid date;
  \<open>MongoError\<close> is a rejection coming back from the storage driver.
\<close>

datatype error = TypeError | RangeError | MongoError string

text \<open>
  Two built-ins of the JavaScript engine are left as parameters: the decimal rendering of a
  number (\<open>Number::toString\<close>) and \<open>Date.parse\<close>, whose accepted formats beyond ISO 8601 are
  implementation-defined. \<open>DateParse s\<close> is the time value in milliseconds, \<open>None\<close> for
  \<open>NaN\<close>. Every theorem below holds for every engine. \<open>unspecified_engine\<close> is an engine
  about which nothing is known: an evaluation that succeeds with it does not depend on
  either built-in.
\<close>

record engine =
  NumberToString :: "jsnum \<Rightarrow> string"
  DateParse :: "string \<Rightarrow> int option"

definition unspecified_engine :: engine where
  "unspecified_engine = \<lparr>NumberToString = undefined, DateParse = undefined\<rparr>"

definition ebind :: "error + 'a \<Rightarrow> ('a \<Rightarrow> error + 'b) \<Rightarrow> error + 'b" where
  "ebind m f = (case m of Inl e \<Rightarrow> Inl e | Inr v \<Rightarrow> f v)"

text \<open>A loop that pushes one computed element per iteration stops at the first exception.\<close>

fun collect :: "(error + 'a) list \<Rightarrow> error + 'a list" where
  "collect [] = Inr []"
| "collect (m # ms) = ebind m (\<lambda>v. ebind (collect ms) (\<lambda>vs. Inr (v # vs)))"

fun typeof :: "jsval \<Rightarrow> string" where
  "typeof JUndefined = ''undefined''"
| "typeof JNull = ''object''"
| "typeof (JBool b) = ''boolean''"
| "typeof (JNum n) = ''number''"
| "typeof (JStr s) = ''string''"
| "typeof (JArr xs) = ''object''"
| "typeof (JObj kvs) = ''object''"

text \<open>
  \<open>v[k]\<close> for a property name \<open>k\<close>. Reading a property of \<open>null\<close> or \<open>undefined\<close> raises.
  Only own properties of objects are modelled: the names the adapter reads (\<open>type\<close>,
  \<open>operation\<close>, \<open>left\<close>, \<open>right\<close>, \<open>children\<close>, and the collection's field names) are taken
  not to be members of \<open>Object.prototype\<close> or \<open>Array.prototype\<close>, nor array indices.
\<close>

fun get_prop :: "jsval \<Rightarrow> string \<Rightarrow> error + jsval" where
  "get_prop JUndefined k = Inl TypeError"
| "get_prop JNull k = Inl TypeError"
| "get_prop (JObj kvs) k = Inr (case map_of kvs k of Some v \<Rightarrow> v | None \<Rightarrow> JUndefined)"
| "get_prop v k = Inr JUndefined"

fun join :: "string \<Rightarrow> string list \<Rightarrow> string" where
  "join sep [] = []"
| "join sep [s] = s"
| "join sep (s # t # ss) = s @ sep @ join sep (t # ss)"

text \<open>
  \<open>"" + v\<close>: conversion to a primitive, then to a string. An array joins its elements with
  commas (\<open>null\<close> and \<open>undefined\<close> elements as the empty string). A plain object prints as
  \<open>[object Object]\<close> through the inherited \<open>toString\<close>; when JSON gave it an own property
  named \<open>toString\<close>, that property is not callable, the inherited \<open>valueOf\<close> (or an own,
  equally uncallable one) yields no primitive, and the conversion raises \<open>TypeError\<close>.
\<close>

fun ToString :: "engine \<Rightarrow> jsval \<Rightarrow> error + string" where
  "ToString E JUndefined = Inr ''undefined''"
| "ToString E JNull = Inr ''null''"
| "ToString E (JBool b) = Inr (if b then ''true'' else ''false'')"
| "ToString E (JNum n) = Inr (NumberToString E n)"
| "ToString E (JStr s) = Inr s"
| "ToString E (JArr xs) =
     ebind (collect (map (\<lambda>x. if x = JUndefined \<or> x = JNull then Inr [] else ToString E x) xs))
       (\<lambda>ss. Inr (join '','' ss))"
| "ToString E (JObj kvs) =
     (if ''toString'' \<in> set (map fst kvs) then Inl TypeError else Inr ''[object Object]'')"

text \<open>\<open>String.prototype.toLowerCase\<close> on Latin-1 code units: A-Z and the accented capitals.\<close>

definition toLowerCase_char :: "char \<Rightarrow> char" where
  "toLowerCase_char c =
     (let n = (of_char c :: nat)
      in if (65 \<le> n \<and> n \<le> 90) \<or> (192 \<le> n \<and> n \<le> 222 \<and> n \<noteq> 215)
         then (case c of Char b0 b1 b2 b3 b4 b5 b6 b7 \<Rightarrow> Char b0 b1 b2 b3 b4 True b6 b7)
         else c)"

definition toLowerCase :: "string \<Rightarrow> string" where
  "toLowerCase s = map toLowerCase_char s"

fun Math_floor :: "jsnum \<Rightarrow> jsnum" where
  "Math_floor (Fin r) = Fin (of_int \<lfloor>r\<rfloor>)"
| "Math_floor n = n"

text \<open>\<open>!!v\<close>.\<close>

fun ToBoolean :: "jsval \<Rightarrow> bool" where
  "ToBoolean JUndefined = False"
| "ToBoolean JNull = False"
| "ToBoolean (JBool b) = b"
| "ToBoolean (JNum n) = (n \<noteq> NaN \<and> n \<noteq> Fin 0)"
| "ToBoolean (JStr s) = (s \<noteq> [])"
| "ToBoolean (JArr xs) = True"
| "ToBoolean (JObj kvs) = True"

text \<open>
  \<open>xs[i]\<close> for a number \<open>i\<close>: the element when \<open>i\<close> is an integer index in range, otherwise
  \<open>undefined\<close> (here \<open>None\<close>).
\<close>

fun array_get :: "'a list \<Rightarrow> jsnum \<Rightarrow> 'a option" where
  "array_get xs (Fin r) =
     (if r = of_int \<lfloor>r\<rfloor> \<and> 0 \<le> r \<and> nat \<lfloor>r\<rfloor> < length xs then Some (xs ! nat \<lfloor>r\<rfloor>) else None)"
| "array_get xs n = None"

section \<open>The query sanitizer (\<open>src/utils/deepint-sources.ts\<close>)\<close>

datatype QueryTree =
  QueryTree (qtype: string) (operation: string) (left: jsnum) (right: "string option")
    (children: "QueryTree list")

definition QUERY_TREE_MAX_DEPH :: int where
  "QUERY_TREE_MAX_DEPH = 4"

definition QUERY_TREE_MAX_CHILDREN :: nat where
  "QUERY_TREE_MAX_CHILDREN = 16"

text \<open>The three array and object literals that \<open>sanitizeQueryTree\<close> tests membership in.\<close>

definition query_types :: "string list" where
  "query_types = [''single'', ''one'', ''anyof'', ''allof'', ''not'']"

definition query_operations :: "string list" where
  "query_operations = [''null'', ''eq'', ''lt'', ''le'', ''lte'', ''gt'', ''ge'', ''gte'',
                       ''cn'', ''cni'', ''sw'', ''swi'', ''ew'', ''ewi'']"

definition combinator_types :: "string list" where
  "combinator_types = [''anyof'', ''allof'', ''not'']"

text \<open>
  The body of \<open>sanitizeQueryTree\<close>, block by block: \<open>type\<close> (lines 29-35), \<open>operation\<close>
  (37-43), \<open>left\<close> (45-50), \<open>right\<close> (52-62), and the \<open>children\<close> array the loop of lines
  64-68 runs over (a \<open>children\<close> property that is not an array gives no iteration).
\<close>

definition sanitized_type :: "engine \<Rightarrow> jsval \<Rightarrow> error + string" where
  "sanitized_type E tree =
     ebind (get_prop tree ''type'') (\<lambda>tree_type.
     ebind (ToString E tree_type) (\<lambda>type_str.
       let type = toLowerCase type_str
       in Inr (if type \<notin> set query_types then ''anyof'' else type)))"

definition sanitized_operation :: "engine \<Rightarrow> jsval \<Rightarrow> error + string" where
  "sanitized_operation E tree =
     ebind (get_prop tree ''operation'') (\<lambda>tree_operation.
     ebind (ToString E tree_operation) (\<lambda>operation_str.
       let operation = toLowerCase operation_str
       in Inr (if operation \<notin> set query_operations then [] else operation)))"

definition sanitized_left :: "jsval \<Rightarrow> error + jsnum" where
  "sanitized_left tree =
     ebind (get_prop tree ''left'') (\<lambda>tree_left.
       Inr (case tree_left of JNum n \<Rightarrow> Math_floor n | _ \<Rightarrow> Fin (- 1)))"

definition sanitized_right :: "engine \<Rightarrow> jsval \<Rightarrow> error + string option" where
  "sanitized_right E tree =
     ebind (get_prop tree ''right'') (\<lambda>tree_right.
       if tree_right = JNull then Inr None
       else ebind (ToString E tree_right) (\<lambda>right.
              Inr (Some (if length right > 1024 then take 1024 right else right))))"

definition children_array :: "jsval \<Rightarrow> error + jsval list" where
  "children_array tree =
     ebind (get_prop tree ''children'') (\<lambda>tree_children.
       Inr (case tree_children of JArr cs \<Rightarrow> cs | _ \<Rightarrow> []))"

text \<open>
  \<open>typeof null\<close> is \<open>"object"\<close>, so a \<open>null\<close> tree enters the first branch and the read of
  \<open>tree.type\<close> raises. The recursion is bounded by \<open>depth\<close>, whatever the input.
\<close>

function sanitizeQueryTree :: "engine \<Rightarrow> jsval \<Rightarrow> int \<Rightarrow> error + QueryTree" where
  "sanitizeQueryTree E tree depth =
     (if typeof tree = ''object'' then
        ebind (sanitized_type E tree) (\<lambda>type.
        ebind (sanitized_operation E tree) (\<lambda>operation.
        ebind (sanitized_left tree) (\<lambda>left.
        ebind (sanitized_right E tree) (\<lambda>right.
        ebind (if depth < QUERY_TREE_MAX_DEPH \<and> type \<in> set combinator_types
               then ebind (children_array tree) (\<lambda>cs.
                      collect (map (\<lambda>c. sanitizeQueryTree E c (depth + 1))
                                 (take QUERY_TREE_MAX_CHILDREN cs)))
               else Inr [])
          (\<lambda>children. Inr (QueryTree type operation left right children))))))
      else Inr (QueryTree ''anyof'' [] (Fin (- 1)) (Some []) []))"
  by pat_completeness auto
termination
  by (relation "measure (\<lambda>(E, tree, depth). nat (QUERY_TREE_MAX_DEPH - depth))")
     (auto simp: QUERY_TREE_MAX_DEPH_def)

declare sanitizeQueryTree.simps [simp del]

text \<open>\<open>DataSource.sanitizeFilter\<close> (\<open>src/source.ts\<close>): a falsy body is no filter at all.\<close>

definition sanitizeFilter :: "engine \<Rightarrow> jsval \<Rightarrow> error + QueryTree option" where
  "sanitizeFilter E json =
     (if \<not> ToBoolean json then Inr None
      else ebind (sanitizeQueryTree E json 0) (\<lambda>t. Inr (Some t)))"

subsection \<open>Measures of a tree, and the sanitized tree read back as a value\<close>

fun tree_depth :: "QueryTree \<Rightarrow> nat" where
  "tree_depth (QueryTree ty opn l r cs) =
     (if cs = [] then 0 else Suc (fold max (map tree_depth cs) 0))"

fun max_children :: "QueryTree \<Rightarrow> nat" where
  "max_children (QueryTree ty opn l r cs) = fold max (map max_children cs) (length cs)"

fun tree_to_js :: "QueryTree \<Rightarrow> jsval" where
  "tree_to_js (QueryTree ty opn l r cs) =
     JObj [(''type'', JStr ty), (''operation'', JStr opn), (''left'', JNum l),
           (''right'', (case r of None \<Rightarrow> JNull | Some s \<Rightarrow> JStr s)),
           (''children'', JArr (map tree_to_js cs))]"

text \<open>
  An input node is a combinator when it is an object whose sanitized type is one of
  \<open>anyof\<close>, \<open>allof\<close>, \<open>not\<close> (a missing or unknown type counts: it defaults to \<open>anyof\<close>).
\<close>

definition is_combinator :: "engine \<Rightarrow> jsval \<Rightarrow> bool" where
  "is_combinator E tree \<longleftrightarrow>
     typeof tree = ''object'' \<and>
     (case sanitized_type E tree of Inr ty \<Rightarrow> ty \<in> set combinator_types | Inl e \<Rightarrow> False)"

definition children_of :: "jsval \<Rightarrow> jsval list" where
  "children_of tree = (case children_array tree of Inr cs \<Rightarrow> cs | Inl e \<Rightarrow> [])"

text \<open>
  \<open>nested n tree\<close>: the input holds a chain of \<open>n\<close> nested \<open>children\<close> arrays below the root.
  \<open>nested_kept\<close> only follows what the sanitizer follows: combinator nodes, and the first
  16 elements of their arrays.
\<close>

primrec nested :: "nat \<Rightarrow> jsval \<Rightarrow> bool" where
  "nested 0 tree = True"
| "nested (Suc n) tree = list_ex (nested n) (children_of tree)"

primrec nested_kept :: "engine \<Rightarrow> nat \<Rightarrow> jsval \<Rightarrow> bool" where
  "nested_kept E 0 tree = True"
| "nested_kept E (Suc n) tree =
     (is_combinator E tree \<and>
      list_ex (nested_kept E n) (take QUERY_TREE_MAX_CHILDREN (children_of tree)))"

text \<open>The canonical form: what every tree returned at a given depth satisfies.\<close>

fun canonical :: "int \<Rightarrow> QueryTree \<Rightarrow> bool" where
  "canonical depth (QueryTree ty opn l r cs) =
     (ty \<in> set query_types \<and>
      opn \<in> set ([] # query_operations) \<and>
      Math_floor l = l \<and>
      (case r of None \<Rightarrow> True | Some s \<Rightarrow> length s \<le> 1024) \<and>
      length cs \<le> QUERY_TREE_MAX_CHILDREN \<and>
      (cs = [] \<or> (depth < QUERY_TREE_MAX_DEPH \<and> ty \<in> set combinator_types)) \<and>
      list_all (canonical (depth + 1)) cs)"


subsection \<open>Example filters\<close>

text \<open>
  \<open>{"children": [{"children": [ ... ]}]}\<close>, six arrays deep, with no \<open>type\<close> anywhere
  (every node defaults to \<open>anyof\<close>), and what the sanitizer makes of it.
\<close>

definition deep_chain :: jsval where
  "deep_chain =
     JObj [(''children'', JArr [JObj [(''children'', JArr [JObj [(''children'', JArr [
     JObj [(''children'', JArr [JObj [(''children'', JArr [JObj [(''children'', JArr [
     JObj []])]])]])]])]])]])]"

definition default_node :: "QueryTree list \<Rightarrow> QueryTree" where
  "default_node cs = QueryTree ''anyof'' [] (Fin (- 1)) (Some ''undefined'') cs"

definition deep_chain_sanitized :: QueryTree where
  "deep_chain_sanitized =
     default_node [default_node [default_node [default_node [default_node []]]]]"

text \<open>An \<open>allof\<close> node listing 17 numbers as children.\<close>

definition wide_node :: jsval where
  "wide_node = JObj [(''type'', JStr ''allof''), (''right'', JNull),
                     (''children'', JArr (replicate 17 (JNum (Fin 7))))]"

definition wide_node_sanitized :: QueryTree where
  "wide_node_sanitized =
     QueryTree ''allof'' [] (Fin (- 1)) None
       (replicate 16 (QueryTree ''anyof'' [] (Fin (- 1)) (Some []) []))"

text \<open>A leaf (\<open>type: "single"\<close>) that carries a \<open>children\<close> chain five arrays deep.\<close>

definition leaf_over_chain :: jsval where
  "leaf_over_chain =
     JObj [(''type'', JStr ''single''),
           (''children'', JArr [JObj [(''children'', JArr [JObj [(''children'', JArr [
            JObj [(''children'', JArr [JObj [(''children'', JArr [JObj []])]])]])]])]])]"

text \<open>
  \<open>{"type": "AllOf", "operation": "EQ", "left": 2.5, "right": null, "children":
  [{"type": "single", "operation": "CN", "left": 0, "right": "a.b*", "children": [{}]},
  true]}\<close>
\<close>

definition messy_filter :: jsval where
  "messy_filter =
     JObj [(''type'', JStr ''AllOf''), (''operation'', JStr ''EQ''), (''left'', JNum (Fin (5 / 2))),
           (''right'', JNull),
           (''children'', JArr [
              JObj [(''type'', JStr ''single''), (''operation'', JStr ''CN''),
                    (''left'', JNum (Fin 0)), (''right'', JStr ''a.b*''),
                    (''children'', JArr [JObj []])],
              JBool True])]"

definition messy_filter_sanitized :: QueryTree where
  "messy_filter_sanitized =
     QueryTree ''allof'' ''eq'' (Fin 2) None
       [QueryTree ''single'' ''cn'' (Fin 0) (Some ''a.b*'') [],
        QueryTree ''anyof'' [] (Fin (- 1)) (Some []) []]"

section \<open>The instance codec (\<open>turnInto\<close>)\<close>

datatype FeatureType = Nominal | Text | Numeric | Logic | Date

text \<open>
  \<open>InstanceType = string | number | Date | boolean\<close>, and \<open>null\<close>, which the codec also
  returns. A \<open>Date\<close> is its time value in milliseconds, \<open>None\<close> for an invalid date.
\<close>

datatype InstanceType =
    INull
  | IString string
  | INumber jsnum
  | IDate "int option"
  | IBoolean bool

record Feature =
  index :: nat
  ftype :: FeatureType
  name :: string

subsection \<open>\<open>Number(s)\<close> for a string\<close>

text \<open>
  The \<open>StringNumericLiteral\<close> grammar of ECMAScript: optional white space around an
  optionally signed decimal literal (digits, fraction, exponent, or \<open>Infinity\<close>), or an
  unsigned hexadecimal, octal or binary integer; the empty string is 0; anything else is
  \<open>NaN\<close>. The value is the literal's mathematical value.
\<close>

definition is_whitespace :: "char \<Rightarrow> bool" where
  "is_whitespace c \<longleftrightarrow> (of_char c :: nat) \<in> {9, 10, 11, 12, 13, 32, 160}"

definition trim :: "string \<Rightarrow> string" where
  "trim s = rev (dropWhile is_whitespace (rev (dropWhile is_whitespace s)))"

definition is_digit :: "char \<Rightarrow> bool" where
  "is_digit c \<longleftrightarrow> 48 \<le> (of_char c :: nat) \<and> (of_char c :: nat) \<le> 57"

definition digit_value :: "char \<Rightarrow> nat" where
  "digit_value c =
     (let n = (of_char c :: nat)
      in if 48 \<le> n \<and> n \<le> 57 then n - 48
         else if 97 \<le> n \<and> n \<le> 102 then n - 87
         else if 65 \<le> n \<and> n \<le> 70 then n - 55
         else 16)"

definition digits_value :: "nat \<Rightarrow> string \<Rightarrow> nat" where
  "digits_value base s = foldl (\<lambda>a c. a * base + digit_value c) 0 s"

definition radix_literal :: "nat \<Rightarrow> string \<Rightarrow> jsnum" where
  "radix_literal base s =
     (if s \<noteq> [] \<and> list_all (\<lambda>c. digit_value c < base) s
      then Fin (of_nat (digits_value base s)) else NaN)"

definition scale10 :: "nat \<Rightarrow> int \<Rightarrow> rat" where
  "scale10 m e = (if 0 \<le> e then of_nat m * 10 ^ nat e else of_nat m / 10 ^ nat (- e))"

definition exponent_part :: "string \<Rightarrow> int option" where
  "exponent_part s =
     (case s of
        [] \<Rightarrow> Some 0
      | c # r \<Rightarrow>
          if c = CHR ''e'' \<or> c = CHR ''E'' then
            (case r of
               [] \<Rightarrow> None
             | d # ds \<Rightarrow>
                 if d = CHR ''+'' \<and> ds \<noteq> [] \<and> list_all is_digit ds
                   then Some (int (digits_value 10 ds))
                 else if d = CHR ''-'' \<and> ds \<noteq> [] \<and> list_all is_digit ds
                   then Some (- int (digits_value 10 ds))
                 else if list_all is_digit r then Some (int (digits_value 10 r))
                 else None)
          else None)"

definition unsigned_decimal :: "string \<Rightarrow> rat option" where
  "unsigned_decimal s =
     (let ip = takeWhile is_digit s;
          r1 = dropWhile is_digit s;
          fp = (case r1 of [] \<Rightarrow> [] | c # r \<Rightarrow> if c = CHR ''.'' then takeWhile is_digit r else []);
          r2 = (case r1 of [] \<Rightarrow> [] | c # r \<Rightarrow> if c = CHR ''.'' then dropWhile is_digit r else r1)
      in if ip = [] \<and> fp = [] then None
         else (case exponent_part r2 of
                 None \<Rightarrow> None
               | Some e \<Rightarrow> Some (scale10 (digits_value 10 (ip @ fp)) (e - int (length fp)))))"

definition decimal_literal :: "string \<Rightarrow> jsnum" where
  "decimal_literal s =
     (case s of
        [] \<Rightarrow> NaN
      | c # r \<Rightarrow>
          if c = CHR ''-'' then
            (if r = ''Infinity'' then NegInf
             else case unsigned_decimal r of None \<Rightarrow> NaN | Some v \<Rightarrow> Fin (- v))
          else
            (let u = (if c = CHR ''+'' then r else s)
             in if u = ''Infinity'' then PosInf
                else case unsigned_decimal u of None \<Rightarrow> NaN | Some v \<Rightarrow> Fin v))"

definition StringToNumber :: "string \<Rightarrow> jsnum" where
  "StringToNumber s =
     (let t = trim s
      in if t = [] then Fin 0
         else if take 2 t = ''0x'' \<or> take 2 t = ''0X'' then radix_literal 16 (drop 2 t)
         else if take 2 t = ''0o'' \<or> take 2 t = ''0O'' then radix_literal 8 (drop 2 t)
         else if take 2 t = ''0b'' \<or> take 2 t = ''0B'' then radix_literal 2 (drop 2 t)
         else decimal_literal t)"

text \<open>\<open>Number(v)\<close>: an array or object goes through its string form.\<close>

fun ToNumber :: "engine \<Rightarrow> jsval \<Rightarrow> error + jsnum" where
  "ToNumber E JUndefined = Inr NaN"
| "ToNumber E JNull = Inr (Fin 0)"
| "ToNumber E (JBool b) = Inr (Fin (if b then 1 else 0))"
| "ToNumber E (JNum n) = Inr n"
| "ToNumber E (JStr s) = Inr (StringToNumber s)"
| "ToNumber E v = ebind (ToString E v) (\<lambda>s. Inr (StringToNumber s))"

subsection \<open>\<open>new Date(v)\<close> and \<open>toISOString\<close>\<close>

definition TimeClip :: "jsnum \<Rightarrow> int option" where
  "TimeClip n =
     (case n of
        Fin r \<Rightarrow> if \<bar>r\<bar> > 8640000000000000 then None
                 else Some (if 0 \<le> r then \<lfloor>r\<rfloor> else \<lceil>r\<rceil>)
      | _ \<Rightarrow> None)"

text \<open>
  The constructor converts its argument to a primitive: a string is parsed, anything else
  is converted to a number and clipped to the range of time values.
\<close>

fun new_Date :: "engine \<Rightarrow> jsval \<Rightarrow> error + int option" where
  "new_Date E (JStr s) = Inr (DateParse E s)"
| "new_Date E (JArr xs) = ebind (ToString E (JArr xs)) (\<lambda>s. Inr (DateParse E s))"
| "new_Date E (JObj kvs) = ebind (ToString E (JObj kvs)) (\<lambda>s. Inr (DateParse E s))"
| "new_Date E v = ebind (ToNumber E v) (\<lambda>n. Inr (TimeClip n))"

text \<open>The ISO string itself is discarded by the caller; what matters is whether it raises.\<close>

definition toISOString :: "int option \<Rightarrow> error + unit" where
  "toISOString date = (case date of None \<Rightarrow> Inl RangeError | Some t \<Rightarrow> Inr ())"

subsection \<open>\<open>turnInto\<close>\<close>

definition turnInto :: "engine \<Rightarrow> jsval \<Rightarrow> FeatureType \<Rightarrow> error + InstanceType" where
  "turnInto E data type =
     (if data = JNull \<or> data = JUndefined then Inr INull
      else case type of
        Nominal \<Rightarrow> ebind (ToString E data) (\<lambda>s. Inr (IString (take 255 s)))
      | Date \<Rightarrow>
          (case ebind (new_Date E data) (\<lambda>date. ebind (toISOString date) (\<lambda>iso. Inr date)) of
             Inr date \<Rightarrow> Inr (IDate date)
           | Inl ex \<Rightarrow> Inr (IDate (Some 0)))
      | Numeric \<Rightarrow>
          ebind (ToNumber E data) (\<lambda>n. if n = NaN then Inr INull else Inr (INumber n))
      | Logic \<Rightarrow>
          (if data = JStr ''true'' \<or> data = JStr ''1'' then Inr (IBoolean True)
           else if data = JStr ''false'' \<or> data = JStr ''0'' then Inr (IBoolean False)
           else Inr (IBoolean (ToBoolean data)))
      | Text \<Rightarrow> ebind (ToString E data) (\<lambda>s. Inr (IString s)))"

section \<open>The filter compiler\<close>

subsection \<open>Filter objects\<close>

text \<open>
  A MongoDB filter is built as loosely typed nested objects and arrays whose leaves are
  coerced literals and \<open>RegExp\<close> objects (pattern source and flags). An object is its list
  of own properties in insertion order, with distinct keys (the order of \<open>Object.keys\<close>
  for keys that are not array indices); \<open>MUndefined\<close> is what reading an absent property
  yields.
\<close>

datatype mongo =
    MUndefined
  | MVal InstanceType
  | MRegExp string string
  | MArr "mongo list"
  | MObj "(string \<times> mongo) list"

definition obj_get :: "(string \<times> mongo) list \<Rightarrow> string \<Rightarrow> mongo" where
  "obj_get query key = (case map_of query key of Some v \<Rightarrow> v | None \<Rightarrow> MUndefined)"

text \<open>\<open>query[key] = v\<close>: an existing property keeps its place, a new one goes last.\<close>

fun obj_set :: "(string \<times> mongo) list \<Rightarrow> string \<Rightarrow> mongo \<Rightarrow> (string \<times> mongo) list" where
  "obj_set [] key v = [(key, v)]"
| "obj_set ((k, w) # query) key v =
     (if k = key then (key, v) # query else (k, w) # obj_set query key v)"

definition obj_delete :: "(string \<times> mongo) list \<Rightarrow> string \<Rightarrow> (string \<times> mongo) list" where
  "obj_delete query key = filter (\<lambda>kv. fst kv \<noteq> key) query"

definition startsWith :: "string \<Rightarrow> string \<Rightarrow> bool" where
  "startsWith s p \<longleftrightarrow> take (length p) s = p"

subsection \<open>\<open>negateMongoQuery\<close>\<close>

text \<open>
  The array nesting depth of a filter value. Negation never increases it and recurses only
  into elements of arrays, which is why the recursion below ends even where it runs on
  values that an earlier iteration of the loop wrote.
\<close>

fun array_depth :: "mongo \<Rightarrow> nat" where
  "array_depth (MObj kvs) = fold max (map (\<lambda>kv. array_depth (snd kv)) kvs) 0"
| "array_depth (MArr xs) = Suc (fold max (map array_depth xs) 0)"
| "array_depth v = 0"

text \<open>
  \<open>negate_keys keys query\<close> is the \<open>for (const key of keys)\<close> loop over the snapshot
  \<open>Object.keys(query)\<close>, with \<open>query\<close> the object as mutated so far. \<open>.map\<close> on anything but
  an array is a call of \<open>undefined\<close> and raises. Applied to an array, the function sees its
  indices as keys and wraps every element; a non-empty string has read-only index
  properties (the module is strict); \<open>Object.keys\<close> of \<open>null\<close> or \<open>undefined\<close> raises, and
  of any other primitive, a date or a regular expression is empty.
\<close>

function negateMongoQuery :: "mongo \<Rightarrow> error + mongo"
  and negate_keys :: "string list \<Rightarrow> (string \<times> mongo) list \<Rightarrow> error + mongo" where
  "negateMongoQuery (MObj query) = negate_keys (map fst query) query"
| "negateMongoQuery (MArr xs) = Inr (MArr (map (\<lambda>x. MObj [(''$not'', x)]) xs))"
| "negateMongoQuery (MVal v) =
     (case v of
        INull \<Rightarrow> Inl TypeError
      | IString s \<Rightarrow> if s = [] then Inr (MVal v) else Inl TypeError
      | _ \<Rightarrow> Inr (MVal v))"
| "negateMongoQuery (MRegExp s f) = Inr (MRegExp s f)"
| "negateMongoQuery MUndefined = Inl TypeError"
| "negate_keys [] query = Inr (MObj query)"
| "negate_keys (key # keys) query =
     (if \<not> startsWith key ''$'' then
        negate_keys keys (obj_set query key (MObj [(''$not'', obj_get query key)]))
      else if key = ''$and'' then
        (case obj_get query ''$and'' of
           MArr xs \<Rightarrow>
             (case collect (map negateMongoQuery xs) of
                Inl e \<Rightarrow> Inl e
              | Inr ys \<Rightarrow> negate_keys keys (obj_delete (obj_set query ''$or'' (MArr ys)) ''$and''))
         | _ \<Rightarrow> Inl TypeError)
      else if key = ''$or'' then
        (case obj_get query ''$or'' of
           MArr xs \<Rightarrow>
             (case collect (map negateMongoQuery xs) of
                Inl e \<Rightarrow> Inl e
              | Inr ys \<Rightarrow> negate_keys keys (obj_delete (obj_set query ''$and'' (MArr ys)) ''$or''))
         | _ \<Rightarrow> Inl TypeError)
      else if key = ''$not'' then Inr (obj_get query key)
      else negate_keys keys query)"
  by pat_completeness auto
termination
proof -
  have maxl_le: "fold max xs (a::nat) \<le> b \<longleftrightarrow> a \<le> b \<and> (\<forall>x\<in>set xs. x \<le> b)" for xs a b
    by (induction xs arbitrary: a) auto
  have obj_le: "array_depth (MObj kvs) \<le> b \<longleftrightarrow> (\<forall>kv\<in>set kvs. array_depth (snd kv) \<le> b)"
    for kvs b
    by (simp add: maxl_le)
  have arr_le: "array_depth (MArr xs) \<le> Suc b \<longleftrightarrow> (\<forall>x\<in>set xs. array_depth x \<le> b)" for xs b
    by (simp add: maxl_le)
  have wrap: "array_depth (MObj [(k, v)]) = array_depth v" for k v
    by simp
  have arr_wrap: "array_depth (MArr (map (\<lambda>x. MObj [(k, x)]) xs)) = array_depth (MArr xs)"
    for k xs
    by (simp add: comp_def)
  have arr_pos: "0 < array_depth (MArr xs)" for xs
    by simp
  have arr_elem: "array_depth x < array_depth (MArr xs)" if "x \<in> set xs" for x xs
  proof -
    from that have "array_depth x \<le> fold max (map array_depth xs) 0"
      using maxl_le[of "map array_depth xs" 0 "fold max (map array_depth xs) 0"] by simp
    then show ?thesis by simp
  qed
  note array_depth.simps [simp del]
  have get: "array_depth (obj_get query key) \<le> array_depth (MObj query)" for query key
  proof (cases "map_of query key")
    case None
    then show ?thesis by (simp add: obj_get_def array_depth.simps(3))
  next
    case (Some v)
    then have "(key, v) \<in> set query" by (rule map_of_SomeD)
    moreover have "\<forall>kv\<in>set query. array_depth (snd kv) \<le> array_depth (MObj query)"
      using obj_le[of query "array_depth (MObj query)"] by simp
    ultimately have "array_depth (snd (key, v)) \<le> array_depth (MObj query)" by blast
    with Some show ?thesis by (simp add: obj_get_def)
  qed
  have set_obj_set: "set (obj_set query key v) \<subseteq> insert (key, v) (set query)" for query key v
    by (induction query key v rule: obj_set.induct) auto
  have set: "array_depth (MObj (obj_set query key v)) \<le> b"
    if "array_depth v \<le> b" and "array_depth (MObj query) \<le> b" for query key v b
    using that set_obj_set[of query key v] unfolding obj_le by auto
  have delete: "array_depth (MObj (obj_delete query key)) \<le> b"
    if "array_depth (MObj query) \<le> b" for query key b
    using that unfolding obj_le by (auto simp: obj_delete_def)
  have elem: "array_depth x < array_depth (MObj query)"
    if "obj_get query key = MArr xs" and "x \<in> set xs" for query key xs x
  proof -
    from that(2) have "array_depth x < array_depth (MArr xs)" by (rule arr_elem)
    also have "array_depth (MArr xs) \<le> array_depth (MObj query)"
      using get[of query key] that(1) by simp
    finally show ?thesis .
  qed
  have swap: "array_depth (MObj (obj_delete (obj_set query k (MArr ys)) k'))
              \<le> array_depth (MObj query)"
    if "array_depth (MArr ys) \<le> array_depth (MObj query)" for query k k' ys
    using that by (intro delete set) simp_all
  have collected: "length vs = length ms \<and> (\<forall>i<length ms. ms ! i = Inr (vs ! i))"
    if "collect ms = Inr vs" for ms :: "(error + mongo) list" and vs
    using that
  proof (induction ms arbitrary: vs)
    case Nil
    then show ?case by simp
  next
    case (Cons m ms)
    from Cons.prems obtain v ws where m: "m = Inr v" and ws: "collect ms = Inr ws"
      and vs: "vs = v # ws"
      by (cases m; cases "collect ms") (auto simp: ebind_def)
    from Cons.IH[OF ws] m vs show ?case
      by (auto simp: nth_Cons split: nat.splits)
  qed
  have negated: "array_depth (MArr ys) \<le> array_depth (MObj query)"
    if g: "obj_get query key = MArr xs" and c: "collect (map negateMongoQuery xs) = Inr ys"
      and ih: "\<And>x r. x \<in> set xs \<Longrightarrow> negateMongoQuery x = Inr r
                 \<Longrightarrow> array_depth r \<le> array_depth x"
    for query key xs ys
  proof -
    from collected[OF c] have len: "length ys = length xs"
      and nth: "\<And>i. i < length xs \<Longrightarrow> negateMongoQuery (xs ! i) = Inr (ys ! i)"
      by auto
    have "array_depth y < array_depth (MObj query)" if "y \<in> set ys" for y
    proof -
      from that obtain i where i: "i < length ys" and y: "ys ! i = y"
        by (auto simp: in_set_conv_nth)
      with len nth have "negateMongoQuery (xs ! i) = Inr y" by simp
      moreover from i len have m: "xs ! i \<in> set xs" by simp
      ultimately have "array_depth y \<le> array_depth (xs ! i)" using ih by blast
      also have "array_depth (xs ! i) < array_depth (MObj query)" using g m by (rule elem)
      finally show ?thesis .
    qed
    then have "\<forall>y\<in>set ys. array_depth y \<le> array_depth (MObj query) - 1" by fastforce
    then have "array_depth (MArr ys) \<le> Suc (array_depth (MObj query) - 1)"
      by (simp only: arr_le)
    moreover have "0 < array_depth (MObj query)"
      using get[of query key] g arr_pos[of xs] by simp
    ultimately show ?thesis by simp
  qed
  have bound:
    "negateMongoQuery_negate_keys_dom (Inl q) \<Longrightarrow>
       (\<And>r. negateMongoQuery q = Inr r \<Longrightarrow> array_depth r \<le> array_depth q)"
    "negateMongoQuery_negate_keys_dom (Inr (keys, query)) \<Longrightarrow>
       (\<And>r. negate_keys keys query = Inr r \<Longrightarrow> array_depth r \<le> array_depth (MObj query))"
    for q keys query
  proof (induction rule: negateMongoQuery_negate_keys.pinduct)
    case (1 query)
    then show ?case by (simp add: negateMongoQuery.psimps)
  next
    case (2 xs)
    then have "r = MArr (map (\<lambda>x. MObj [(''$not'', x)]) xs)"
      by (simp add: negateMongoQuery.psimps)
    then show ?case by (simp add: arr_wrap)
  next
    case (3 v)
    then show ?case
      by (auto simp: negateMongoQuery.psimps split: InstanceType.splits if_splits)
  next
    case (4 s f)
    then show ?case by (simp add: negateMongoQuery.psimps)
  next
    case 5
    then show ?case by (simp add: negateMongoQuery.psimps)
  next
    case (6 query)
    then show ?case by (simp add: negate_keys.psimps)
  next
    case (7 key keys query)
    note eq = negate_keys.psimps(2)[OF "7.hyps"]
    show ?case
    proof (cases "startsWith key ''$''")
      case False
      with "7.prems" eq
      have "negate_keys keys (obj_set query key (MObj [(''$not'', obj_get query key)])) = Inr r"
        by simp
      with False
      have "array_depth r
            \<le> array_depth (MObj (obj_set query key (MObj [(''$not'', obj_get query key)])))"
        by (intro "7.IH"(1))
      also have "\<dots> \<le> array_depth (MObj query)"
        by (rule set) (simp_all add: get wrap)
      finally show ?thesis .
    next
      case dollar: True
      show ?thesis
      proof (cases "key = ''$and''")
        case True
        with "7.prems" eq dollar obtain xs ys where g: "obj_get query ''$and'' = MArr xs"
          and c: "collect (map negateMongoQuery xs) = Inr ys"
          and n: "negate_keys keys (obj_delete (obj_set query ''$or'' (MArr ys)) ''$and'') = Inr r"
          by (auto split: mongo.splits sum.splits)
        from dollar True g c n
        have "array_depth r
              \<le> array_depth (MObj (obj_delete (obj_set query ''$or'' (MArr ys)) ''$and''))"
          by (intro "7.IH"(3)) auto
        also have "\<dots> \<le> array_depth (MObj query)"
        proof (rule swap)
          show "array_depth (MArr ys) \<le> array_depth (MObj query)"
            using g c "7.IH"(2)[OF _ True g] dollar True
            by (intro negated[of query _ xs ys]) auto
        qed
        finally show ?thesis .
      next
        case nand: False
        show ?thesis
        proof (cases "key = ''$or''")
          case True
          with "7.prems" eq dollar nand obtain xs ys where g: "obj_get query ''$or'' = MArr xs"
            and c: "collect (map negateMongoQuery xs) = Inr ys"
            and n: "negate_keys keys (obj_delete (obj_set query ''$and'' (MArr ys)) ''$or'') = Inr r"
            by (auto split: mongo.splits sum.splits)
          from dollar nand True g c n
          have "array_depth r
                \<le> array_depth (MObj (obj_delete (obj_set query ''$and'' (MArr ys)) ''$or''))"
            by (intro "7.IH"(5)) auto
          also have "\<dots> \<le> array_depth (MObj query)"
          proof (rule swap)
            show "array_depth (MArr ys) \<le> array_depth (MObj query)"
              using g c "7.IH"(4)[OF _ nand True g] dollar True
              by (intro negated[of query _ xs ys]) auto
          qed
          finally show ?thesis .
        next
          case nor: False
          show ?thesis
          proof (cases "key = ''$not''")
            case True
            with "7.prems" eq dollar nand nor have "r = obj_get query key" by simp
            then show ?thesis by (simp add: get)
          next
            case False
            with "7.prems" eq dollar nand nor have "negate_keys keys query = Inr r" by simp
            with dollar nand nor False show ?thesis by (intro "7.IH"(6)) auto
          qed
        qed
      qed
    qed
  qed
  have len: "length xs \<le> size_list f xs" for f and xs :: "(string \<times> mongo) list"
    by (induction xs) auto
  show ?thesis
  proof (relation "measures
      [\<lambda>a. case a of Inl q \<Rightarrow> array_depth q | Inr (keys, query) \<Rightarrow> array_depth (MObj query),
       \<lambda>a. case a of Inl q \<Rightarrow> Suc (size q) | Inr (keys, query) \<Rightarrow> length keys]",
      goal_cases)
    case 1
    then show ?case by simp
  next
    case (2 query)
    have "length query \<le> size_list (size_prod (\<lambda>x. 0) size) query"
      by (rule len)
    then show ?case by simp
  next
    case (3 key keys query)
    have "array_depth (MObj (obj_set query key (MObj [(''$not'', obj_get query key)])))
          \<le> array_depth (MObj query)"
      by (rule set) (simp_all add: get wrap)
    then show ?case by auto
  next
    case (4 key keys query xs x)
    then have "array_depth x < array_depth (MObj query)"
      by (intro elem[of query "''$and''" xs]) auto
    then show ?case by simp
  next
    case (5 key keys query xs ys)
    have "array_depth (MArr ys) \<le> array_depth (MObj query)"
      using 5 by (intro negated[of query "''$and''" xs ys] bound(1)) auto
    then have "array_depth (MObj (obj_delete (obj_set query ''$or'' (MArr ys)) ''$and''))
               \<le> array_depth (MObj query)"
      by (rule swap)
    then show ?case by auto
  next
    case (6 key keys query xs x)
    then have "array_depth x < array_depth (MObj query)"
      by (intro elem[of query "''$or''" xs]) auto
    then show ?case by simp
  next
    case (7 key keys query xs ys)
    have "array_depth (MArr ys) \<le> array_depth (MObj query)"
      using 7 by (intro negated[of query "''$or''" xs ys] bound(1)) auto
    then have "array_depth (MObj (obj_delete (obj_set query ''$and'' (MArr ys)) ''$or''))
               \<le> array_depth (MObj query)"
      by (rule swap)
    then show ?case by auto
  next
    case (8 key keys query)
    then show ?case by simp
  qed
qed

declare negateMongoQuery.simps [simp del] negate_keys.simps [simp del]

subsection \<open>\<open>escapeRegExp\<close>\<close>

text \<open>
  The character class \<open>[-[\]{}()*+?.,\\^$|#\s]\<close>: the listed punctuation, the backslash and
  white space (\<open>\s\<close> is the white space and line terminators of \<open>is_whitespace\<close>). Every
  match is replaced by a backslash and itself.
\<close>

definition backslash :: char where
  "backslash = CHR 0x5C"

definition regexp_special :: "char \<Rightarrow> bool" where
  "regexp_special c \<longleftrightarrow> c \<in> set ''-[]{}()*+?.,^$|#'' \<or> c = backslash \<or> is_whitespace c"

definition escape_text :: "string \<Rightarrow> string" where
  "escape_text s = concat (map (\<lambda>c. if regexp_special c then [backslash, c] else [c]) s)"

text \<open>
  The argument is whatever the codec returned. Only a string has a \<open>replace\<close> method:
  on a number, a boolean or a date the call is a call of \<open>undefined\<close>, on \<open>null\<close> the
  property read fails.
\<close>

definition escapeRegExp :: "InstanceType \<Rightarrow> error + string" where
  "escapeRegExp text = (case text of IString s \<Rightarrow> Inr (escape_text s) | _ \<Rightarrow> Inl TypeError)"

subsection \<open>\<open>toMongoFilter\<close>\<close>

text \<open>
  A \<open>null\<close> query (no filter) is \<open>None\<close>. The three loops over \<open>query.children\<close> push one
  compiled child per iteration. In the leaf branch \<open>features[query.left]\<close> is \<open>undefined\<close>
  outside the array, and \<open>turnInto\<close> is applied to \<open>query.right\<close> before the operation is
  looked at.
\<close>

definition regex_filter :: "Feature \<Rightarrow> string \<Rightarrow> string \<Rightarrow> string \<Rightarrow> InstanceType
    \<Rightarrow> error + mongo" where
  "regex_filter feature before after flags cmp =
     ebind (escapeRegExp cmp) (\<lambda>escaped.
       Inr (MObj [(name feature, MObj [(''$regex'', MRegExp (before @ escaped @ after) flags)])]))"

fun toMongoFilter :: "engine \<Rightarrow> Feature list \<Rightarrow> QueryTree option \<Rightarrow> error + mongo" where
  "toMongoFilter E features None = Inr (MObj [])"
| "toMongoFilter E features (Some (QueryTree type operation' left' right' children')) =
     (if type = ''anyof'' then
        ebind (collect (map (\<lambda>child. toMongoFilter E features (Some child)) children'))
          (\<lambda>ors. Inr (if length ors = 0 then MObj [] else MObj [(''$or'', MArr ors)]))
      else if type = ''allof'' then
        ebind (collect (map (\<lambda>child. toMongoFilter E features (Some child)) children'))
          (\<lambda>ands. Inr (if length ands = 0 then MObj [] else MObj [(''$and'', MArr ands)]))
      else if type = ''not'' then
        ebind (collect (map (\<lambda>child. toMongoFilter E features (Some child)) children'))
          (\<lambda>nd. if length nd > 0 then negateMongoQuery (MObj [(''$and'', MArr nd)])
                else Inr (MObj []))
      else if operation' \<noteq> ''null'' \<and> right' = None then Inr (MObj [])
      else
        (case array_get features left' of
           None \<Rightarrow> Inr (MObj [])
         | Some feature \<Rightarrow>
             ebind (turnInto E (case right' of None \<Rightarrow> JNull | Some s \<Rightarrow> JStr s) (ftype feature))
               (\<lambda>cmp.
                  if operation' = ''null'' then
                    Inr (MObj [(''$or'', MArr [MObj [(''$exists'', MVal (IBoolean False))],
                                              MObj [(''$eq'', MVal INull)]])])
                  else if operation' = ''eq'' then
                    Inr (MObj [(name feature, MObj [(''$eq'', MVal cmp)])])
                  else if operation' = ''lt'' then
                    Inr (MObj [(name feature, MObj [(''$lt'', MVal cmp)])])
                  else if operation' = ''le'' \<or> operation' = ''lte'' then
                    Inr (MObj [(name feature, MObj [(''$lte'', MVal cmp)])])
                  else if operation' = ''gt'' then
                    Inr (MObj [(name feature, MObj [(''$gt'', MVal cmp)])])
                  else if operation' = ''ge'' \<or> operation' = ''gte'' then
                    Inr (MObj [(name feature, MObj [(''$gte'', MVal cmp)])])
                  else if operation' = ''cn'' then regex_filter feature [] [] [] cmp
                  else if operation' = ''cni'' then regex_filter feature [] [] ''i'' cmp
                  else if operation' = ''sw'' then regex_filter feature ''^'' [] [] cmp
                  else if operation' = ''swi'' then regex_filter feature ''^'' [] ''i'' cmp
                  else if operation' = ''ew'' then regex_filter feature [] ''$'' [] cmp
                  else if operation' = ''ewi'' then regex_filter feature [] ''$'' ''i'' cmp
                  else Inr (MObj []))))"

declare toMongoFilter.simps [simp del]

subsection \<open>What a filter means\<close>

text \<open>
  The target semantics of a compiled filter, after MongoDB's query language: a filter
  object is the conjunction of its clauses; \<open>$and\<close> and \<open>$or\<close> take a non-empty array of
  filters; any other key starting with \<open>$\<close> is not a top-level operator this model knows
  (the server rejects \<open>$exists\<close> or \<open>$eq\<close> there as an unknown top-level operator); every
  other key names a field, whose value is an operator expression (a non-empty object with
  only \<open>$\<close>-keys), a regular expression, or a literal to equal. Inside an operator
  expression \<open>$not\<close> negates an operator expression or a regular expression. The meaning of
  the atomic operators on a document's field is a parameter \<open>sem doc field operator
  operand\<close>. The result \<open>None\<close> is a filter the server rejects or this model leaves out.
\<close>

definition all_opt :: "bool option list \<Rightarrow> bool option" where
  "all_opt rs = (if None \<in> set rs then None else Some (list_all (\<lambda>r. r = Some True) rs))"

definition any_opt :: "bool option list \<Rightarrow> bool option" where
  "any_opt rs = (if None \<in> set rs then None else Some (list_ex (\<lambda>r. r = Some True) rs))"

definition is_operator_expression :: "mongo \<Rightarrow> bool" where
  "is_operator_expression v \<longleftrightarrow>
     (case v of
        MObj ops \<Rightarrow> ops \<noteq> [] \<and> list_all (\<lambda>kv. startsWith (fst kv) ''$'') ops
      | _ \<Rightarrow> False)"

fun operator_holds :: "(string \<Rightarrow> mongo \<Rightarrow> bool option) \<Rightarrow> mongo \<Rightarrow> bool option" where
  "operator_holds semf (MObj ops) =
     all_opt (map (\<lambda>kv.
        if fst kv = ''$not'' then
          (if is_operator_expression (snd kv) then map_option Not (operator_holds semf (snd kv))
           else case snd kv of
                  MRegExp s f \<Rightarrow> map_option Not (semf ''$regex'' (snd kv))
                | _ \<Rightarrow> None)
        else semf (fst kv) (snd kv)) ops)"
| "operator_holds semf v = None"

declare operator_holds.simps [simp del]

definition field_holds :: "(string \<Rightarrow> mongo \<Rightarrow> bool option) \<Rightarrow> mongo \<Rightarrow> bool option" where
  "field_holds semf v =
     (if is_operator_expression v then operator_holds semf v
      else case v of
             MRegExp s f \<Rightarrow> semf ''$regex'' v
           | _ \<Rightarrow> semf ''$eq'' v)"

fun matches :: "('d \<Rightarrow> string \<Rightarrow> string \<Rightarrow> mongo \<Rightarrow> bool option) \<Rightarrow> 'd \<Rightarrow> mongo \<Rightarrow> bool option" where
  "matches sem d (MObj clauses) =
     all_opt (map (\<lambda>kv.
        if fst kv = ''$and'' then
          (case snd kv of
             MArr fs \<Rightarrow> if fs = [] then None else all_opt (map (matches sem d) fs)
           | _ \<Rightarrow> None)
        else if fst kv = ''$or'' then
          (case snd kv of
             MArr fs \<Rightarrow> if fs = [] then None else any_opt (map (matches sem d) fs)
           | _ \<Rightarrow> None)
        else if startsWith (fst kv) ''$'' then None
        else field_holds (sem d (fst kv)) (snd kv)) clauses)"
| "matches sem d v = None"

declare matches.simps [simp del]

subsection \<open>What a regular expression matches\<close>

text \<open>
  The fragment of ECMAScript's pattern language that the compiler can produce or that a
  literal could smuggle in: a sequence of terms, each a character, an escaped character or
  the dot, optionally followed by \<open>*\<close>, \<open>+\<close> or \<open>?\<close>, and the assertions \<open>^\<close> and \<open>$\<close>. A
  backslash before a character that is no letter or digit is an identity escape. Groups,
  classes, alternation, braces and letter or digit escapes are outside the fragment:
  \<open>parse_pattern\<close> is \<open>None\<close> on them (and on a syntax error).
\<close>

datatype atom = Lit char | AnyChar

datatype re_item = Bol | Eol | One atom | Opt atom | Star atom | Plus atom

definition is_alnum :: "char \<Rightarrow> bool" where
  "is_alnum c \<longleftrightarrow>
     (let n = (of_char c :: nat)
      in (48 \<le> n \<and> n \<le> 57) \<or> (65 \<le> n \<and> n \<le> 90) \<or> (97 \<le> n \<and> n \<le> 122))"

definition quantified :: "atom \<Rightarrow> string \<Rightarrow> re_item \<times> string" where
  "quantified a r =
     (case r of
        [] \<Rightarrow> (One a, [])
      | q # r' \<Rightarrow>
          if q = CHR ''*'' then (Star a, r')
          else if q = CHR ''+'' then (Plus a, r')
          else if q = CHR ''?'' then (Opt a, r')
          else (One a, r))"

text \<open>The rest of a pattern does not start with a quantifier.\<close>

definition no_quantifier :: "string \<Rightarrow> bool" where
  "no_quantifier r = (case r of [] \<Rightarrow> True | q # r' \<Rightarrow> q \<notin> set ''*+?'')"

function parse_pattern :: "string \<Rightarrow> re_item list option" where
  "parse_pattern [] = Some []"
| "parse_pattern (c # r) =
     (if c = CHR ''^'' then map_option (Cons Bol) (parse_pattern r)
      else if c = CHR ''$'' then map_option (Cons Eol) (parse_pattern r)
      else if c = backslash then
        (case r of
           [] \<Rightarrow> None
         | e # r' \<Rightarrow>
             if is_alnum e then None
             else map_option (Cons (fst (quantified (Lit e) r')))
                    (parse_pattern (snd (quantified (Lit e) r'))))
      else if c = CHR ''.'' then
        map_option (Cons (fst (quantified AnyChar r))) (parse_pattern (snd (quantified AnyChar r)))
      else if c \<in> set ''*+?()[]{}|'' then None
      else map_option (Cons (fst (quantified (Lit c) r))) (parse_pattern (snd (quantified (Lit c) r))))"
  by pat_completeness auto
termination
proof (relation "measure length")
  have q: "length (snd (quantified a r)) \<le> length r" for a r
    by (cases r) (simp_all add: quantified_def)
  fix c :: char and r :: string
  show "(snd (quantified AnyChar r), c # r) \<in> measure length"
    using q[of AnyChar r] by simp
  show "(snd (quantified (Lit c) r), c # r) \<in> measure length"
    using q[of "Lit c" r] by simp
  fix e r'
  assume "r = e # r'"
  then show "(snd (quantified (Lit e) r'), c # r) \<in> measure length"
    using q[of "Lit e" r'] by simp
qed simp_all

declare parse_pattern.simps [simp del]

text \<open>
  Case-insensitive matching compares canonicalized characters: the upper-case form, on
  Latin-1 code units. The dot matches anything but a line terminator.
\<close>

definition toUpperCase_char :: "char \<Rightarrow> char" where
  "toUpperCase_char c =
     (let n = (of_char c :: nat)
      in if (97 \<le> n \<and> n \<le> 122) \<or> (224 \<le> n \<and> n \<le> 254 \<and> n \<noteq> 247)
         then (case c of Char b0 b1 b2 b3 b4 b5 b6 b7 \<Rightarrow> Char b0 b1 b2 b3 b4 False b6 b7)
         else c)"

definition canonicalize :: "bool \<Rightarrow> char \<Rightarrow> char" where
  "canonicalize ignoreCase c = (if ignoreCase then toUpperCase_char c else c)"

definition atom_matches :: "bool \<Rightarrow> atom \<Rightarrow> char \<Rightarrow> bool" where
  "atom_matches ignoreCase a c =
     (case a of
        Lit l \<Rightarrow> canonicalize ignoreCase l = canonicalize ignoreCase c
      | AnyChar \<Rightarrow> (of_char c :: nat) \<noteq> 10 \<and> (of_char c :: nat) \<noteq> 13)"

text \<open>
  \<open>match_here items at_start rest\<close>: the items match a prefix of \<open>rest\<close>, where \<open>at_start\<close>
  says whether \<open>rest\<close> is the whole input (there is no \<open>m\<close> flag, so \<open>^\<close> and \<open>$\<close> mean the
  ends of the input). \<open>RegExp_test\<close> is \<open>RegExp.prototype.test\<close>: a match at some position.
  This is the meaning of the \<open>RegExp\<close> object the compiler builds, by ECMAScript's rules.
\<close>

fun match_here :: "bool \<Rightarrow> re_item list \<Rightarrow> bool \<Rightarrow> string \<Rightarrow> bool" where
  "match_here ic [] at_start rest = True"
| "match_here ic (Bol # items) at_start rest = (at_start \<and> match_here ic items at_start rest)"
| "match_here ic (Eol # items) at_start rest = (rest = [] \<and> match_here ic items at_start rest)"
| "match_here ic (One a # items) at_start [] = False"
| "match_here ic (One a # items) at_start (c # rest) =
     (atom_matches ic a c \<and> match_here ic items False rest)"
| "match_here ic (Opt a # items) at_start [] = match_here ic items at_start []"
| "match_here ic (Opt a # items) at_start (c # rest) =
     (match_here ic items at_start (c # rest) \<or>
      (atom_matches ic a c \<and> match_here ic items False rest))"
| "match_here ic (Star a # items) at_start [] = match_here ic items at_start []"
| "match_here ic (Star a # items) at_start (c # rest) =
     (match_here ic items at_start (c # rest) \<or>
      (atom_matches ic a c \<and> match_here ic (Star a # items) False rest))"
| "match_here ic (Plus a # items) at_start [] = False"
| "match_here ic (Plus a # items) at_start (c # rest) =
     (atom_matches ic a c \<and> match_here ic (Star a # items) False rest)"

definition regex_search :: "bool \<Rightarrow> re_item list \<Rightarrow> string \<Rightarrow> bool" where
  "regex_search ic items text =
     list_ex (\<lambda>i. match_here ic items (i = 0) (drop i text)) [0..<Suc (length text)]"

definition RegExp_test :: "string \<Rightarrow> string \<Rightarrow> string \<Rightarrow> bool option" where
  "RegExp_test source flags text =
     map_option (\<lambda>items. regex_search (CHR ''i'' \<in> set flags) items text) (parse_pattern source)"

text \<open>
  Literal matching, in the words of the specification: the text contains, starts with or
  ends with the literal, compared code unit by code unit, or by canonicalized code units
  for the case-insensitive operations.
\<close>

definition literal_match :: "string \<Rightarrow> string \<Rightarrow> string \<Rightarrow> bool" where
  "literal_match opn literal text =
     (let ic = (opn = ''cni'' \<or> opn = ''swi'' \<or> opn = ''ewi'');
          l = map (canonicalize ic) literal;
          t = map (canonicalize ic) text
      in if opn = ''cn'' \<or> opn = ''cni'' then sublist l t
         else if opn = ''sw'' \<or> opn = ''swi'' then prefix l t
         else suffix l t)"

subsection \<open>Valid leaves, and an example schema\<close>

text \<open>
  A valid leaf: not a combinator, a non-null right literal, a left index inside the schema
  (of a field whose name is an ordinary field name, not starting with \<open>$\<close>), and a
  comparison operation, or a string-match operation on a text or nominal field.
\<close>

definition comparison_operations :: "string list" where
  "comparison_operations = [''eq'', ''lt'', ''le'', ''lte'', ''gt'', ''ge'', ''gte'']"

definition string_operations :: "string list" where
  "string_operations = [''cn'', ''cni'', ''sw'', ''swi'', ''ew'', ''ewi'']"

definition valid_leaf :: "Feature list \<Rightarrow> QueryTree \<Rightarrow> bool" where
  "valid_leaf features q \<longleftrightarrow>
     qtype q \<notin> set combinator_types \<and> right q \<noteq> None \<and>
     (case array_get features (left q) of
        None \<Rightarrow> False
      | Some feature \<Rightarrow>
          \<not> startsWith (name feature) ''$'' \<and>
          (operation q \<in> set comparison_operations \<or>
           operation q \<in> set string_operations \<and> ftype feature \<in> {Text, Nominal}))"

definition iris_features :: "Feature list" where
  "iris_features =
     [\<lparr>index = 0, ftype = Numeric, name = ''sepalLength''\<rparr>,
      \<lparr>index = 1, ftype = Nominal, name = ''species''\<rparr>]"

definition species_is_setosa :: QueryTree where
  "species_is_setosa = QueryTree ''single'' ''eq'' (Fin 1) (Some ''setosa'') []"

definition sepal_over_5 :: QueryTree where
  "sepal_over_5 = QueryTree ''single'' ''gt'' (Fin 0) (Some ''5'') []"

text \<open>
  A document as a function from field names to values, and a small instance of the atomic
  semantics: equality, and \<open>$gt\<close> on finite numbers.
\<close>

definition example_sem :: "(string \<Rightarrow> InstanceType) \<Rightarrow> string \<Rightarrow> string \<Rightarrow> mongo \<Rightarrow> bool option" where
  "example_sem d field opr operand =
     (if opr = ''$eq'' then Some (operand = MVal (d field))
      else if opr = ''$gt'' then
        (case (d field, operand) of
           (INumber (Fin x), MVal (INumber (Fin y))) \<Rightarrow> Some (y < x)
         | _ \<Rightarrow> Some False)
      else None)"

definition setosa_49 :: "string \<Rightarrow> InstanceType" where
  "setosa_49 field =
     (if field = ''species'' then IString ''setosa''
      else if field = ''sepalLength'' then INumber (Fin (49 / 10))
      else INull)"

section \<open>The data source (\<open>src/source.ts\<close>) and the update route\<close>

text \<open>
  The state of \<open>DataSource\<close> that the operations below read and write; \<open>source_fields\<close>
  is its member \<open>fields\<close>. \<open>updateSem\<close> is the semaphore's count of signals not yet consumed
  by the worker.
\<close>

record DataSource =
  source_fields :: "Feature list"
  updateQueue :: "InstanceType list list"
  updateSem :: nat
  requiredUpdate :: bool

text \<open>
  The storage driver is an external collaborator and stays a parameter: whether connecting
  fails, whether \<open>insertMany\<close> of a list of rows fails, and what
  \<open>find(cond).sort(s).project(p).limit(n).toArray()\<close> yields. A document is an object.
\<close>

type_synonym document = "(string \<times> jsval) list"

record storage =
  connect :: "error option"
  insertMany :: "(string \<times> mongo) list list \<Rightarrow> error option"
  find_toArray :: "mongo \<Rightarrow> (string \<times> int) list \<Rightarrow> (string \<times> int) list \<Rightarrow> nat
                   \<Rightarrow> error + document list"

definition doc_get :: "document \<Rightarrow> string \<Rightarrow> jsval" where
  "doc_get doc key = (case map_of doc key of Some v \<Rightarrow> v | None \<Rightarrow> JUndefined)"

subsection \<open>\<open>sanitizeInstances\<close>\<close>

definition sanitizeInstances :: "engine \<Rightarrow> Feature list \<Rightarrow> jsval \<Rightarrow> error + InstanceType list list" where
  "sanitizeInstances E fs instances =
     (case instances of
        JArr xs \<Rightarrow>
          collect (map (\<lambda>i.
            let row = (if typeof i \<noteq> ''object'' then JObj [] else i)
            in collect (map (\<lambda>feature.
                 ebind (get_prop row (name feature)) (\<lambda>v. turnInto E v (ftype feature))) fs)) xs)
      | _ \<Rightarrow> Inr [])"

subsection \<open>\<open>pushInstances\<close> and \<open>noticeUpdate\<close>\<close>

text \<open>\<open>i[feature.index]\<close> is \<open>undefined\<close> past the end of the instance.\<close>

definition to_row :: "Feature list \<Rightarrow> InstanceType list \<Rightarrow> (string \<times> mongo) list" where
  "to_row fs i =
     foldl (\<lambda>row feature.
        obj_set row (name feature)
          (if index feature < length i then MVal (i ! index feature) else MUndefined)) [] fs"

text \<open>
  Each \<open>await\<close> that rejects ends the method there, with the state as it is. The queue is
  written only by the \<open>forEach\<close> after the insert. The model follows one call from start
  to end; what other requests or the worker do to the queue while the call waits is
  outside it.
\<close>

definition pushInstances :: "storage \<Rightarrow> DataSource \<Rightarrow> InstanceType list list
    \<Rightarrow> (error + unit) \<times> DataSource" where
  "pushInstances S this instances =
     (let mongoInstances = map (to_row (source_fields this)) instances
      in case connect S of
           Some e \<Rightarrow> (Inl e, this)
         | None \<Rightarrow>
             (case insertMany S mongoInstances of
                Some e \<Rightarrow> (Inl e, this)
              | None \<Rightarrow>
                  (Inr (), this\<lparr>updateQueue := foldl (\<lambda>queue i. queue @ [i]) (updateQueue this) instances\<rparr>)))"

text \<open>
  Modelled from the spec: \<open>AsyncSemaphore.release\<close> of the package
  \<open>@asanrom/async-tools\<close>, which is not part of the repository, increments the wake-up
  counter.
\<close>

definition release :: "nat \<Rightarrow> nat" where
  "release permits = Suc permits"

definition noticeUpdate :: "DataSource \<Rightarrow> DataSource" where
  "noticeUpdate this = this\<lparr>requiredUpdate := True, updateSem := release (updateSem this)\<rparr>"

subsection \<open>The worker: \<open>runUpdateService\<close>\<close>

definition DEEPINT_UPDATE_INSTANCES_LIMIT :: nat where
  "DEEPINT_UPDATE_INSTANCES_LIMIT = 100"

text \<open>
  Modelled from the spec: \<open>AsyncSemaphore.acquire\<close> of the same package, at which the
  worker blocks until signalled. With a signal pending the call takes it and returns;
  \<open>None\<close> says that no signal is pending and the call does not return yet.
\<close>

definition acquire :: "nat \<Rightarrow> nat option" where
  "acquire permits = (if permits = 0 then None else Some (permits - 1))"

text \<open>
  The inner loop that moves instances from the head of the queue to the batch
  (\<open>instancesToPush.push(this.updateQueue.shift())\<close>).
\<close>

function drain :: "InstanceType list list \<Rightarrow> InstanceType list list
    \<Rightarrow> InstanceType list list \<times> InstanceType list list" where
  "drain instancesToPush queue =
     (if length instancesToPush < DEEPINT_UPDATE_INSTANCES_LIMIT \<and> length queue > 0
      then drain (instancesToPush @ [hd queue]) (tl queue)
      else (instancesToPush, queue))"
  by pat_completeness auto
termination
  by (relation "measure (\<lambda>(instancesToPush, queue). length queue)") auto

declare drain.simps [simp del]

text \<open>
  One turn of the loop of \<open>runUpdateService\<close> in a running worker (\<open>closed\<close> is false), up
  to the call of \<open>sendInstancesToDeepIntelligence\<close>: \<open>None\<close> while the worker waits at
  \<open>acquire\<close>, \<open>Some (None, _)\<close> for a turn that ends at \<open>continue\<close>, and
  \<open>Some (Some batch, _)\<close> when \<open>batch\<close> is handed to the sender. The sending and its retries
  are not followed.
\<close>

definition runUpdateService_turn :: "DataSource
    \<Rightarrow> (InstanceType list list option \<times> DataSource) option" where
  "runUpdateService_turn this =
     (case acquire (updateSem this) of
        None \<Rightarrow> None
      | Some permits \<Rightarrow>
          (let this1 = this\<lparr>updateSem := permits\<rparr>
           in if \<not> requiredUpdate this1 \<and> length (updateQueue this1) = 0
              then Some (None, this1)
              else (case drain [] (updateQueue this1) of
                      (instancesToPush, queue) \<Rightarrow>
                        Some (Some instancesToPush,
                              this1\<lparr>updateQueue := queue, requiredUpdate := False\<rparr>))))"

text \<open>
  The route \<open>POST /update/push\<close> (\<open>StatusController.pushInstances\<close>): the result is the
  HTTP status, or the exception that escapes the handler. \<open>authorized\<close> is the outcome of
  \<open>checkAuth\<close>.
\<close>

definition StatusController_pushInstances :: "engine \<Rightarrow> storage \<Rightarrow> bool \<Rightarrow> jsval \<Rightarrow> DataSource
    \<Rightarrow> (error + nat) \<times> DataSource" where
  "StatusController_pushInstances E S authorized body this =
     (if \<not> authorized then (Inr 401, this)
      else case sanitizeInstances E (source_fields this) (if ToBoolean body then body else JArr []) of
             Inl e \<Rightarrow> (Inl e, this)
           | Inr instances \<Rightarrow>
               (case pushInstances S this instances of
                  (Inl e, this') \<Rightarrow> (Inl e, this')
                | (Inr u, this') \<Rightarrow> (Inr 200, noticeUpdate this')))"

subsection \<open>\<open>getNominalValues\<close>\<close>

text \<open>
  \<open>query\<close> is lower-cased and not used further. The cursor is asked for the matching
  documents sorted by the field, projected to it, at most 128 of them.
\<close>

definition getNominalValues :: "engine \<Rightarrow> storage \<Rightarrow> DataSource \<Rightarrow> QueryTree option
    \<Rightarrow> string option \<Rightarrow> jsnum \<Rightarrow> error + string list" where
  "getNominalValues E S this filter' query feature =
     (case array_get (source_fields this) feature of
        None \<Rightarrow> Inr []
      | Some f \<Rightarrow>
          if ftype f \<noteq> Nominal then Inr []
          else
            ebind (toMongoFilter E (source_fields this) filter') (\<lambda>cond1.
              let fieldName = name f;
                  query' = toLowerCase (case query of None \<Rightarrow> [] | Some q \<Rightarrow> q)
              in case connect S of
                   Some e \<Rightarrow> Inl e
                 | None \<Rightarrow>
                     ebind (find_toArray S cond1 [(fieldName, 1)] [(fieldName, 1)] 128) (\<lambda>docs.
                       collect (map (\<lambda>doc.
                           ToString E (if ToBoolean (doc_get doc fieldName)
                                       then doc_get doc fieldName else JStr []))
                         (filter (\<lambda>doc. ToBoolean (doc_get doc fieldName)) docs)))))"

text \<open>
  The cursor's contract for \<open>limit\<close>, and the shape of a nominal field as this adapter
  writes it (a string, or \<open>null\<close>, or absent).
\<close>

definition honours_limit :: "storage \<Rightarrow> bool" where
  "honours_limit S \<longleftrightarrow>
     (\<forall>cond srt prj n docs. find_toArray S cond srt prj n = Inr docs \<longrightarrow> length docs \<le> n)"

fun string_or_null :: "jsval \<Rightarrow> bool" where
  "string_or_null (JStr s) = True"
| "string_or_null JNull = True"
| "string_or_null JUndefined = True"
| "string_or_null v = False"

fun string_of :: "jsval \<Rightarrow> string" where
  "string_of (JStr s) = s"
| "string_of v = []"

subsection \<open>An example source\<close>

definition iris_source :: DataSource where
  "iris_source = \<lparr>source_fields = iris_features, updateQueue = [], updateSem = 0, requiredUpdate = False\<rparr>"

text \<open>A collection holding two \<open>setosa\<close> rows and one \<open>virginica\<close> row, already sorted.\<close>

definition iris_storage :: storage where
  "iris_storage =
     \<lparr>connect = None,
      insertMany = (\<lambda>rows. if rows = [] then Some (MongoError ''Batch cannot be empty'') else None),
      find_toArray = (\<lambda>cond srt prj n. Inr (take n
         [[(''_id'', JNum (Fin 1)), (''species'', JStr ''setosa'')],
          [(''_id'', JNum (Fin 2)), (''species'', JStr ''setosa'')],
          [(''_id'', JNum (Fin 3)), (''species'', JStr ''virginica'')]]))\<rparr>"

definition failing_storage :: storage where
  "failing_storage =
     \<lparr>connect = None,
      insertMany = (\<lambda>rows. Some (MongoError ''write failed'')),
      find_toArray = (\<lambda>cond srt prj n. Inl (MongoError ''read failed''))\<rparr>"

section \<open>Properties of the sanitizer\<close>

lemma ebind_Inr_iff: "ebind m f = Inr y \<longleftrightarrow> (\<exists>v. m = Inr v \<and> f v = Inr y)"
  by (cases m) (simp_all add: ebind_def)

lemma ebind_Inr [simp]: "ebind (Inr v) f = f v"
  by (simp add: ebind_def)

lemma ebind_Inl [simp]: "ebind (Inl e) f = Inl e"
  by (simp add: ebind_def)

lemma collect_Inr_iff:
  "collect ms = Inr vs \<longleftrightarrow> ms = map Inr vs"
proof (induction ms arbitrary: vs)
  case Nil
  then show ?case by auto
next
  case (Cons m ms)
  show ?case
    by (cases m; cases vs) (auto simp: ebind_Inr_iff Cons.IH)
qed

lemma collect_map_Inr:
  "collect (map f xs) = Inr vs \<longleftrightarrow> map f xs = map Inr vs"
  by (rule collect_Inr_iff)

lemma Math_floor_idem: "Math_floor (Math_floor n) = Math_floor n"
  by (cases n) simp_all


lemma sanitize_non_object:
  "typeof x \<noteq> ''object'' \<Longrightarrow>
   sanitizeQueryTree E x d = Inr (QueryTree ''anyof'' [] (Fin (- 1)) (Some []) [])"
  by (simp add: sanitizeQueryTree.simps[of E x d])


lemma ebindE:
  assumes "ebind m f = Inr y"
  obtains v where "m = Inr v" and "f v = Inr y"
  using assms by (auto simp: ebind_Inr_iff)

lemma sanitize_object:
  assumes "sanitizeQueryTree E x d = Inr t" and "typeof x = ''object''"
  obtains ty opn l r cs where
    "sanitized_type E x = Inr ty" "sanitized_operation E x = Inr opn"
    "sanitized_left x = Inr l" "sanitized_right E x = Inr r"
    "(if d < QUERY_TREE_MAX_DEPH \<and> ty \<in> set combinator_types
      then ebind (children_array x) (\<lambda>cs.
             collect (map (\<lambda>c. sanitizeQueryTree E c (d + 1))
                        (take QUERY_TREE_MAX_CHILDREN cs)))
      else Inr []) = Inr cs"
    "t = QueryTree ty opn l r cs"
proof -
  have "sanitizeQueryTree E x d =
        ebind (sanitized_type E x) (\<lambda>type.
        ebind (sanitized_operation E x) (\<lambda>operation.
        ebind (sanitized_left x) (\<lambda>left.
        ebind (sanitized_right E x) (\<lambda>right.
        ebind (if d < QUERY_TREE_MAX_DEPH \<and> type \<in> set combinator_types
               then ebind (children_array x) (\<lambda>cs.
                      collect (map (\<lambda>c. sanitizeQueryTree E c (d + 1))
                                 (take QUERY_TREE_MAX_CHILDREN cs)))
               else Inr [])
          (\<lambda>children. Inr (QueryTree type operation left right children))))))"
    by (subst sanitizeQueryTree.simps) (simp only: assms(2) if_True simp_thms)
  with assms(1) show thesis
    by (auto elim!: ebindE intro: that)
qed

lemma sanitized_type_in: "sanitized_type E x = Inr ty \<Longrightarrow> ty \<in> set query_types"
  by (auto simp: sanitized_type_def Let_def elim!: ebindE split: if_splits simp: query_types_def)

lemma sanitized_operation_in:
  "sanitized_operation E x = Inr opn \<Longrightarrow> opn \<in> set ([] # query_operations)"
  by (auto simp: sanitized_operation_def Let_def elim!: ebindE split: if_splits)

lemma sanitized_left_floor: "sanitized_left x = Inr l \<Longrightarrow> Math_floor l = l"
  by (auto simp: sanitized_left_def Math_floor_idem elim!: ebindE split: jsval.splits)

lemma sanitized_right_length:
  "sanitized_right E x = Inr (Some s) \<Longrightarrow> length s \<le> 1024"
  by (auto simp: sanitized_right_def elim!: ebindE split: if_splits)



lemma map_eq_map_Inr_D:
  assumes "map f xs = map Inr vs"
  shows "length vs = length xs" and "\<And>i. i < length xs \<Longrightarrow> f (xs ! i) = Inr (vs ! i)"
proof -
  show len: "length vs = length xs" using assms by (metis length_map)
  fix i assume "i < length xs"
  then show "f (xs ! i) = Inr (vs ! i)"
    using assms len by (metis nth_map)
qed

lemma sanitize_children:
  assumes "sanitizeQueryTree E x d = Inr t"
  shows "children t = [] \<or>
         (typeof x = ''object'' \<and> d < QUERY_TREE_MAX_DEPH \<and> qtype t \<in> set combinator_types \<and>
          (\<exists>cs. children_array x = Inr cs \<and>
             map (\<lambda>c. sanitizeQueryTree E c (d + 1)) (take QUERY_TREE_MAX_CHILDREN cs)
               = map Inr (children t)))"
proof (cases "typeof x = ''object''")
  case False
  with assms show ?thesis by (auto simp: sanitize_non_object)
next
  case True
  from assms True obtain ty opn l r cs where
    *: "(if d < QUERY_TREE_MAX_DEPH \<and> ty \<in> set combinator_types
      then ebind (children_array x) (\<lambda>cs.
             collect (map (\<lambda>c. sanitizeQueryTree E c (d + 1))
                        (take QUERY_TREE_MAX_CHILDREN cs)))
      else Inr []) = Inr cs"
    and t: "t = QueryTree ty opn l r cs"
    by (rule sanitize_object)
  show ?thesis
  proof (cases "d < QUERY_TREE_MAX_DEPH \<and> ty \<in> set combinator_types")
    case False
    with * t show ?thesis by simp
  next
    case c: True
    with * have "ebind (children_array x) (\<lambda>cs.
             collect (map (\<lambda>c. sanitizeQueryTree E c (d + 1))
                        (take QUERY_TREE_MAX_CHILDREN cs))) = Inr cs"
      by simp
    then obtain arr where "children_array x = Inr arr"
      and "collect (map (\<lambda>c. sanitizeQueryTree E c (d + 1))
                        (take QUERY_TREE_MAX_CHILDREN arr)) = Inr cs"
      by (rule ebindE)
    with c t True show ?thesis by (simp add: collect_Inr_iff)
  qed
qed

lemma sanitize_canonical:
  "sanitizeQueryTree E x d = Inr t \<Longrightarrow> canonical d t"
proof (induction E x d arbitrary: t rule: sanitizeQueryTree.induct)
  case (1 E tree depth)
  show ?case
  proof (cases "typeof tree = ''object''")
    case False
    with "1.prems" show ?thesis
      by (auto simp: sanitize_non_object query_types_def)
  next
    case True
    from "1.prems" True obtain ty opn l r cs where
      ty: "sanitized_type E tree = Inr ty" and opn: "sanitized_operation E tree = Inr opn"
      and l: "sanitized_left tree = Inr l" and r: "sanitized_right E tree = Inr r"
      and t: "t = QueryTree ty opn l r cs"
      by (rule sanitize_object)
    from sanitize_children[OF "1.prems"] t
    have ch: "cs = [] \<or>
         (depth < QUERY_TREE_MAX_DEPH \<and> ty \<in> set combinator_types \<and>
          (\<exists>arr. children_array tree = Inr arr \<and>
             map (\<lambda>c. sanitizeQueryTree E c (depth + 1)) (take QUERY_TREE_MAX_CHILDREN arr)
               = map Inr cs))"
      by auto
    have len: "length cs \<le> QUERY_TREE_MAX_CHILDREN"
    proof -
      { fix arr assume "map (\<lambda>c. sanitizeQueryTree E c (depth + 1)) (take QUERY_TREE_MAX_CHILDREN arr)
               = map Inr cs"
        then have "length cs = length (take QUERY_TREE_MAX_CHILDREN arr)"
          by (rule map_eq_map_Inr_D(1))
        then have "length cs \<le> QUERY_TREE_MAX_CHILDREN" by simp }
      with ch show ?thesis by auto
    qed
    have sub: "list_all (canonical (depth + 1)) cs"
    proof (cases "cs = []")
      case True
      then show ?thesis by simp
    next
      case False
      with ch obtain arr where c: "depth < QUERY_TREE_MAX_DEPH" "ty \<in> set combinator_types"
        and arr: "children_array tree = Inr arr"
        and m: "map (\<lambda>c. sanitizeQueryTree E c (depth + 1)) (take QUERY_TREE_MAX_CHILDREN arr)
               = map Inr cs"
        by auto
      have "canonical (depth + 1) (cs ! i)" if "i < length cs" for i
      proof -
        from m have len': "length cs = length (take QUERY_TREE_MAX_CHILDREN arr)"
          by (rule map_eq_map_Inr_D(1))
        with that have i: "i < length (take QUERY_TREE_MAX_CHILDREN arr)" by simp
        with m have "sanitizeQueryTree E (take QUERY_TREE_MAX_CHILDREN arr ! i) (depth + 1) = Inr (cs ! i)"
          by (rule map_eq_map_Inr_D(2))
        moreover from i have "take QUERY_TREE_MAX_CHILDREN arr ! i \<in> set (take QUERY_TREE_MAX_CHILDREN arr)"
          by (rule nth_mem)
        ultimately show ?thesis
          using "1.IH" True c by blast
      qed
      then show ?thesis by (simp add: list_all_length)
    qed
    from ty opn l r len sub ch t show ?thesis
      using sanitized_type_in[OF ty] sanitized_operation_in[OF opn] sanitized_left_floor[OF l]
        sanitized_right_length[of E tree]
      by (auto split: option.splits)
  qed
qed


lemma fold_max_le:
  "fold max xs (a::nat) \<le> b \<longleftrightarrow> a \<le> b \<and> (\<forall>x\<in>set xs. x \<le> b)"
  by (induction xs arbitrary: a) auto

lemma fold_max_ge: "(a::nat) \<le> fold max xs a"
  by (induction xs arbitrary: a) (auto intro: order_trans[OF max.cobounded2])

lemma fold_max_mem: "x \<in> set xs \<Longrightarrow> (x::nat) \<le> fold max xs a"
proof (induction xs arbitrary: a)
  case Nil
  then show ?case by simp
next
  case (Cons y ys)
  then show ?case
    by (auto intro: order_trans[OF max.cobounded1 fold_max_ge])
qed

lemma canonical_depth:
  "canonical d t \<Longrightarrow> d \<le> QUERY_TREE_MAX_DEPH \<Longrightarrow> int (tree_depth t) \<le> QUERY_TREE_MAX_DEPH - d"
proof (induction t arbitrary: d)
  case (QueryTree ty opn l r cs)
  show ?case
  proof (cases "cs = []")
    case True
    with QueryTree.prems show ?thesis by simp
  next
    case False
    with QueryTree.prems have d: "d < QUERY_TREE_MAX_DEPH"
      and sub: "list_all (canonical (d + 1)) cs"
      by auto
    have A: "int (tree_depth c) \<le> QUERY_TREE_MAX_DEPH - (d + 1)" if "c \<in> set cs" for c
      using QueryTree.IH[OF that, of "d + 1"] sub d that by (auto simp: list_all_iff)
    have "tree_depth c \<le> nat (QUERY_TREE_MAX_DEPH - (d + 1))" if "c \<in> set cs" for c
      using A[OF that] by linarith
    then have "\<forall>n\<in>set (map tree_depth cs). n \<le> nat (QUERY_TREE_MAX_DEPH - (d + 1))"
      by auto
    then have "fold max (map tree_depth cs) 0 \<le> nat (QUERY_TREE_MAX_DEPH - (d + 1))"
      by (simp add: fold_max_le)
    with False d show ?thesis by simp
  qed
qed

lemma canonical_max_children:
  "canonical d t \<Longrightarrow> max_children t \<le> QUERY_TREE_MAX_CHILDREN"
proof (induction t arbitrary: d)
  case (QueryTree ty opn l r cs)
  have "max_children c \<le> QUERY_TREE_MAX_CHILDREN" if "c \<in> set cs" for c
    using QueryTree.IH[OF that, of "d + 1"] QueryTree.prems that by (auto simp: list_all_iff)
  with QueryTree.prems show ?case
    by (auto simp: fold_max_le)
qed

lemma toLowerCase_query_types: "ty \<in> set query_types \<Longrightarrow> toLowerCase ty = ty"
  by (auto simp: query_types_def toLowerCase_def toLowerCase_char_def)

lemma toLowerCase_query_operations: "opn \<in> set query_operations \<Longrightarrow> toLowerCase opn = opn"
  by (auto simp: query_operations_def toLowerCase_def toLowerCase_char_def)

lemma canonical_fixed_point:
  "canonical d t \<Longrightarrow> sanitizeQueryTree E (tree_to_js t) d = Inr t"
proof (induction t arbitrary: d)
  case (QueryTree ty opn l r cs)
  let ?x = "tree_to_js (QueryTree ty opn l r cs)"
  from QueryTree.prems have ty: "ty \<in> set query_types"
    and opn: "opn = [] \<or> opn \<in> set query_operations"
    and l: "Math_floor l = l"
    and r: "case r of None \<Rightarrow> True | Some s \<Rightarrow> length s \<le> 1024"
    and len: "length cs \<le> QUERY_TREE_MAX_CHILDREN"
    and ch: "cs = [] \<or> (d < QUERY_TREE_MAX_DEPH \<and> ty \<in> set combinator_types)"
    and sub: "list_all (canonical (d + 1)) cs"
    by auto
  have 1: "sanitized_type E ?x = Inr ty"
    using ty by (simp add: sanitized_type_def toLowerCase_query_types)
  have "[] \<notin> set query_operations" by (simp add: query_operations_def)
  then have 2: "sanitized_operation E ?x = Inr opn"
  proof (cases "opn = []")
    case True
    with \<open>[] \<notin> set query_operations\<close> show ?thesis
      by (simp add: sanitized_operation_def toLowerCase_def)
  next
    case False
    with opn have "opn \<in> set query_operations" by simp
    then show ?thesis
      by (simp add: sanitized_operation_def toLowerCase_query_operations)
  qed
  have 3: "sanitized_left ?x = Inr l"
    using l by (simp add: sanitized_left_def)
  have 4: "sanitized_right E ?x = Inr r"
    using r by (cases r) (simp_all add: sanitized_right_def)
  have 5: "children_array ?x = Inr (map tree_to_js cs)"
    by (simp add: children_array_def)
  have 6: "collect (map (\<lambda>c. sanitizeQueryTree E c (d + 1))
             (take QUERY_TREE_MAX_CHILDREN (map tree_to_js cs))) = Inr cs"
  proof -
    have "map (\<lambda>c. sanitizeQueryTree E c (d + 1)) (map tree_to_js cs) = map Inr cs"
      using QueryTree.IH sub by (auto simp: list_all_iff)
    with len show ?thesis by (simp add: collect_Inr_iff)
  qed
  have 7: "(if d < QUERY_TREE_MAX_DEPH \<and> ty \<in> set combinator_types
               then ebind (children_array ?x) (\<lambda>cs.
                      collect (map (\<lambda>c. sanitizeQueryTree E c (d + 1))
                                 (take QUERY_TREE_MAX_CHILDREN cs)))
               else Inr []) = Inr cs"
    using ch 5 6 by auto
  have 8: "typeof ?x = ''object''" by simp
  show ?case
    by (subst sanitizeQueryTree.simps) (simp add: 1 2 3 4 7 8 del: tree_to_js.simps)
qed


lemma sanitize_children_exact:
  assumes "sanitizeQueryTree E x d = Inr t"
  shows "if d < QUERY_TREE_MAX_DEPH \<and> is_combinator E x
         then collect (map (\<lambda>c. sanitizeQueryTree E c (d + 1))
                (take QUERY_TREE_MAX_CHILDREN (children_of x))) = Inr (children t)
         else children t = []"
proof (cases "typeof x = ''object''")
  case False
  with assms show ?thesis by (auto simp: sanitize_non_object is_combinator_def)
next
  case True
  from assms True obtain ty opn l r cs where
    ty: "sanitized_type E x = Inr ty"
    and *: "(if d < QUERY_TREE_MAX_DEPH \<and> ty \<in> set combinator_types
      then ebind (children_array x) (\<lambda>cs.
             collect (map (\<lambda>c. sanitizeQueryTree E c (d + 1))
                        (take QUERY_TREE_MAX_CHILDREN cs)))
      else Inr []) = Inr cs"
    and t: "t = QueryTree ty opn l r cs"
    by (rule sanitize_object)
  from True ty have comb: "is_combinator E x \<longleftrightarrow> ty \<in> set combinator_types"
    by (simp add: is_combinator_def)
  show ?thesis
  proof (cases "d < QUERY_TREE_MAX_DEPH \<and> ty \<in> set combinator_types")
    case False
    with * t comb show ?thesis by auto
  next
    case c: True
    with * have "ebind (children_array x) (\<lambda>cs.
             collect (map (\<lambda>c. sanitizeQueryTree E c (d + 1))
                        (take QUERY_TREE_MAX_CHILDREN cs))) = Inr cs"
      by simp
    then obtain arr where "children_array x = Inr arr"
      and "collect (map (\<lambda>c. sanitizeQueryTree E c (d + 1))
                        (take QUERY_TREE_MAX_CHILDREN arr)) = Inr cs"
      by (rule ebindE)
    with c t comb show ?thesis by (simp add: children_of_def)
  qed
qed

lemma nested_kept_Suc: "nested_kept E (Suc n) x \<Longrightarrow> nested_kept E n x"
proof (induction n arbitrary: x)
  case 0
  then show ?case by simp
next
  case (Suc n)
  from Suc.prems have comb: "is_combinator E x"
    and ex: "list_ex (nested_kept E (Suc n)) (take QUERY_TREE_MAX_CHILDREN (children_of x))"
    by simp_all
  from ex obtain c where "c \<in> set (take QUERY_TREE_MAX_CHILDREN (children_of x))"
    and "nested_kept E (Suc n) c"
    by (auto simp: list_ex_iff)
  with Suc.IH have "list_ex (nested_kept E n) (take QUERY_TREE_MAX_CHILDREN (children_of x))"
    by (auto simp: list_ex_iff)
  with comb show ?case by simp
qed

lemma nested_kept_add: "nested_kept E (m + k) x \<Longrightarrow> nested_kept E m x"
proof (induction k)
  case 0
  then show ?case by simp
next
  case (Suc k)
  from Suc.prems have "nested_kept E (Suc (m + k)) x" by (simp only: add_Suc_right)
  then have "nested_kept E (m + k) x" by (rule nested_kept_Suc)
  then show ?case by (rule Suc.IH)
qed

lemma nested_kept_mono: "m \<le> n \<Longrightarrow> nested_kept E n x \<Longrightarrow> nested_kept E m x"
  using nested_kept_add[of E m "n - m" x] by simp

lemma kept_depth:
  "nested_kept E n x \<Longrightarrow> sanitizeQueryTree E x d = Inr t \<Longrightarrow> d + int n \<le> QUERY_TREE_MAX_DEPH
   \<Longrightarrow> n \<le> tree_depth t"
proof (induction n arbitrary: x d t)
  case 0
  then show ?case by simp
next
  case (Suc n)
  from Suc.prems(1) have comb: "is_combinator E x" by simp
  from Suc.prems(1) obtain c where c: "c \<in> set (take QUERY_TREE_MAX_CHILDREN (children_of x))"
    and kept: "nested_kept E n c"
    by (auto simp: list_ex_iff)
  from Suc.prems(3) have d: "d < QUERY_TREE_MAX_DEPH" by simp
  from sanitize_children_exact[OF Suc.prems(2)] comb d
  have "collect (map (\<lambda>c. sanitizeQueryTree E c (d + 1))
                (take QUERY_TREE_MAX_CHILDREN (children_of x))) = Inr (children t)"
    by simp
  then have m: "map (\<lambda>c. sanitizeQueryTree E c (d + 1))
                (take QUERY_TREE_MAX_CHILDREN (children_of x)) = map Inr (children t)"
    by (simp add: collect_Inr_iff)
  from c obtain i where i: "i < length (take QUERY_TREE_MAX_CHILDREN (children_of x))"
    and ci: "take QUERY_TREE_MAX_CHILDREN (children_of x) ! i = c"
    by (auto simp: in_set_conv_nth)
  from m i have "sanitizeQueryTree E (take QUERY_TREE_MAX_CHILDREN (children_of x) ! i) (d + 1)
                 = Inr (children t ! i)"
    by (rule map_eq_map_Inr_D(2))
  with ci have s: "sanitizeQueryTree E c (d + 1) = Inr (children t ! i)" by simp
  from m have "length (children t) = length (take QUERY_TREE_MAX_CHILDREN (children_of x))"
    by (rule map_eq_map_Inr_D(1))
  with i have mem: "children t ! i \<in> set (children t)" by simp
  from Suc.prems(3) have "d + 1 + int n \<le> QUERY_TREE_MAX_DEPH" by simp
  from Suc.IH[OF kept s this] have "n \<le> tree_depth (children t ! i)" .
  also from mem have "tree_depth (children t ! i) \<le> fold max (map tree_depth (children t)) 0"
    by (intro fold_max_mem) simp
  finally show ?case
    using mem by (cases t) auto
qed

text \<open>
  C1. The sanitizer is not total. \<open>typeof null\<close> is \<open>"object"\<close>, so a \<open>null\<close> tree passes
  the guard of line 28 and the read of \<open>tree.type\<close> on line 29 raises \<open>TypeError\<close>. The same
  happens one level down for a \<open>null\<close> element of a \<open>children\<close> array, which the loop of
  lines 65-67 hands to the recursive call unchecked: the filter \<open>{"type": "anyof",
  "children": [null]}\<close> makes \<open>sanitizeQueryTree\<close> raise instead of degrading to a
  default node.
\<close>

theorem sanitizeQueryTree_null_raises:
  "sanitizeQueryTree E (JObj [(''type'', JStr ''anyof''), (''children'', JArr [JNull])]) 0
     = Inl TypeError \<and>
   sanitizeQueryTree E JNull depth = Inl TypeError"
  by (simp add: sanitizeQueryTree.simps sanitized_type_def sanitized_operation_def
      sanitized_left_def sanitized_right_def children_array_def toLowerCase_def
      toLowerCase_char_def query_types_def query_operations_def combinator_types_def
      QUERY_TREE_MAX_DEPH_def QUERY_TREE_MAX_CHILDREN_def)

text \<open>
  C3 (as amended). Whenever \<open>sanitizeQueryTree x 0\<close> returns a tree, every node of it lies
  at depth at most 4 and has at most 16 children. At every level of the recursion, a node
  at depth below 4 whose input is a combinator keeps exactly the sanitized forms of the
  first 16 elements of the input's \<open>children\<close> array, in order; every other node (a leaf
  type, or depth 4 and beyond) gets no children. An input whose nesting, followed through
  combinator nodes and the first 16 elements of their arrays, reaches depth \<open>d \<ge> 4\<close>
  sanitizes to a tree of depth exactly 4.
\<close>

theorem sanitizeQueryTree_bounds:
  "(sanitizeQueryTree E x 0 = Inr t \<longrightarrow>
      tree_depth t \<le> 4 \<and> max_children t \<le> 16 \<and>
      (\<forall>d. 4 \<le> d \<longrightarrow> nested_kept E d x \<longrightarrow> tree_depth t = 4)) \<and>
   (sanitizeQueryTree E c d = Inr u \<longrightarrow>
      (if d < 4 \<and> is_combinator E c
       then collect (map (\<lambda>c'. sanitizeQueryTree E c' (d + 1)) (take 16 (children_of c)))
              = Inr (children u)
       else children u = []))"
proof (intro conjI impI allI)
  assume s: "sanitizeQueryTree E x 0 = Inr t"
  then have can: "canonical 0 t" by (rule sanitize_canonical)
  from canonical_depth[OF can] show le: "tree_depth t \<le> 4"
    by (simp add: QUERY_TREE_MAX_DEPH_def)
  from canonical_max_children[OF can] show "max_children t \<le> 16"
    by (simp add: QUERY_TREE_MAX_CHILDREN_def)
  fix n :: nat
  assume "4 \<le> n" and "nested_kept E n x"
  then have "nested_kept E 4 x" by (rule nested_kept_mono)
  from kept_depth[OF this s] have "4 \<le> tree_depth t"
    by (simp add: QUERY_TREE_MAX_DEPH_def)
  with le show "tree_depth t = 4" by simp
next
  assume "sanitizeQueryTree E c d = Inr u"
  from sanitize_children_exact[OF this, unfolded QUERY_TREE_MAX_DEPH_def QUERY_TREE_MAX_CHILDREN_def]
  show "if d < 4 \<and> is_combinator E c
       then collect (map (\<lambda>c'. sanitizeQueryTree E c' (d + 1)) (take 16 (children_of c)))
              = Inr (children u)
       else children u = []" .
qed

lemma floor_five_halves: "\<lfloor>5 / 2 :: rat\<rfloor> = 2"
  by (simp add: floor_eq_iff)

lemmas sanitize_eval =
  sanitizeQueryTree.simps sanitized_type_def sanitized_operation_def
  sanitized_left_def sanitized_right_def children_array_def toLowerCase_def
  toLowerCase_char_def query_types_def query_operations_def combinator_types_def
  QUERY_TREE_MAX_DEPH_def QUERY_TREE_MAX_CHILDREN_def

theorem sanitizeQueryTree_bounds_witness:
  "sanitizeQueryTree unspecified_engine deep_chain 0 = Inr deep_chain_sanitized \<and>
   nested_kept unspecified_engine 6 deep_chain \<and>
   tree_depth deep_chain_sanitized = 4 \<and> max_children deep_chain_sanitized \<le> 16 \<and>
   sanitizeQueryTree unspecified_engine wide_node 0 = Inr wide_node_sanitized \<and>
   is_combinator unspecified_engine wide_node \<and> length (children_of wide_node) = 17 \<and>
   collect (map (\<lambda>c'. sanitizeQueryTree unspecified_engine c' (0 + 1)) (take 16 (children_of wide_node)))
     = Inr (children wide_node_sanitized) \<and>
   length (children wide_node_sanitized) = 16"
proof -
  have 1: "sanitizeQueryTree unspecified_engine deep_chain 0 = Inr deep_chain_sanitized"
    by (simp add: deep_chain_def deep_chain_sanitized_def default_node_def sanitize_eval)
  have 2: "nested_kept unspecified_engine 6 deep_chain"
    by (simp add: eval_nat_numeral deep_chain_def is_combinator_def children_of_def sanitize_eval)
  have 3: "sanitizeQueryTree unspecified_engine wide_node 0 = Inr wide_node_sanitized"
    by (simp add: wide_node_def wide_node_sanitized_def sanitize_eval eval_nat_numeral)
  have 4: "is_combinator unspecified_engine wide_node"
    by (simp add: wide_node_def is_combinator_def sanitize_eval)
  have 5: "length (children_of wide_node) = 17"
    by (simp add: wide_node_def children_of_def children_array_def)
  have 6: "length (children wide_node_sanitized) = 16"
    by (simp add: wide_node_sanitized_def)
  note T = sanitizeQueryTree_bounds[of unspecified_engine deep_chain deep_chain_sanitized
      wide_node 0 wide_node_sanitized]
  from T 1 have "\<forall>d. 4 \<le> d \<longrightarrow> nested_kept unspecified_engine d deep_chain
                   \<longrightarrow> tree_depth deep_chain_sanitized = 4"
    by simp
  then have "4 \<le> (6::nat) \<longrightarrow> nested_kept unspecified_engine 6 deep_chain
                   \<longrightarrow> tree_depth deep_chain_sanitized = 4"
    by (rule spec)
  with 2 have 7: "tree_depth deep_chain_sanitized = 4" by simp
  from T 1 have 8: "max_children deep_chain_sanitized \<le> 16" by simp
  from T 3 4 have 9: "collect (map (\<lambda>c'. sanitizeQueryTree unspecified_engine c' (0 + 1))
      (take 16 (children_of wide_node))) = Inr (children wide_node_sanitized)"
    by simp
  from 1 2 3 4 5 6 7 8 9 show ?thesis by simp
qed

theorem sanitizeQueryTree_depth_counterexample:
  "nested 5 leaf_over_chain \<and>
   sanitizeQueryTree unspecified_engine leaf_over_chain 0
     = Inr (QueryTree ''single'' [] (Fin (- 1)) (Some ''undefined'') []) \<and>
   tree_depth (QueryTree ''single'' [] (Fin (- 1)) (Some ''undefined'') []) = 0"
  by (simp add: eval_nat_numeral leaf_over_chain_def children_of_def sanitize_eval)

text \<open>
  C4. Sanitization is idempotent. Read back as a value, the tree that
  \<open>sanitizeQueryTree x 0\<close> returns sanitizes to itself; when the first call raises there is
  no tree to sanitize again, and the composition raises the same exception.
\<close>

theorem sanitizeQueryTree_idempotent:
  "ebind (sanitizeQueryTree E x 0) (\<lambda>t. sanitizeQueryTree E (tree_to_js t) 0)
     = sanitizeQueryTree E x 0 \<and>
   (sanitizeQueryTree E x 0 = Inr t \<longrightarrow> sanitizeQueryTree E (tree_to_js t) 0 = Inr t)"
proof -
  have again: "sanitizeQueryTree E (tree_to_js t') 0 = Inr t'"
    if "sanitizeQueryTree E x 0 = Inr t'" for t'
    using that by (intro canonical_fixed_point sanitize_canonical)
  show ?thesis
    by (cases "sanitizeQueryTree E x 0") (simp_all add: again)
qed

theorem sanitizeQueryTree_idempotent_witness:
  "sanitizeQueryTree unspecified_engine messy_filter 0 = Inr messy_filter_sanitized \<and>
   sanitizeQueryTree unspecified_engine (tree_to_js messy_filter_sanitized) 0
     = Inr messy_filter_sanitized"
proof -
  have 1: "sanitizeQueryTree unspecified_engine messy_filter 0 = Inr messy_filter_sanitized"
    by (simp add: messy_filter_def messy_filter_sanitized_def sanitize_eval floor_five_halves)
  from sanitizeQueryTree_idempotent[of unspecified_engine messy_filter messy_filter_sanitized] 1
  show ?thesis by simp
qed

section \<open>Properties of the codec\<close>

lemma ToString_primitive:
  "typeof data \<noteq> ''object'' \<Longrightarrow> \<exists>s. ToString E data = Inr s"
  by (cases data) simp_all

lemma ToNumber_converts:
  "ToString E data = Inr s \<Longrightarrow> \<exists>n. ToNumber E data = Inr n"
  by (cases data) simp_all

lemma turnInto_Date:
  assumes "data \<noteq> JNull" and "data \<noteq> JUndefined"
  shows "turnInto E data Date
         = Inr (IDate (Some (case new_Date E data of Inr (Some t) \<Rightarrow> t | _ \<Rightarrow> 0)))"
proof (cases "new_Date E data")
  case (Inl e)
  with assms show ?thesis by (simp add: turnInto_def)
next
  case (Inr date)
  with assms show ?thesis
    by (cases date) (simp_all add: turnInto_def toISOString_def)
qed

lemma StringToNumber_abc: "StringToNumber ''abc'' = NaN"
  by (simp add: StringToNumber_def trim_def is_whitespace_def decimal_literal_def
      unsigned_decimal_def is_digit_def Let_def)

lemma turnInto_returns:
  assumes "ty = Logic \<or> ty = Date \<or> (\<exists>s. ToString E data = Inr s)"
  shows "\<exists>v. turnInto E data ty = Inr v"
proof (cases "data = JNull \<or> data = JUndefined")
  case True
  then show ?thesis by (auto simp: turnInto_def)
next
  case False
  show ?thesis
  proof (cases ty)
    case Nominal
    with assms False show ?thesis by (auto simp: turnInto_def)
  next
    case Text
    with assms False show ?thesis by (auto simp: turnInto_def)
  next
    case Numeric
    with assms obtain s where "ToString E data = Inr s" by auto
    then obtain n where "ToNumber E data = Inr n" by (auto dest: ToNumber_converts)
    with Numeric False show ?thesis by (simp add: turnInto_def)
  next
    case Logic
    with False show ?thesis by (simp add: turnInto_def)
  next
    case Date
    with False show ?thesis by (simp add: turnInto_Date)
  qed
qed

text \<open>
  C5 (as amended). \<open>null\<close> and \<open>undefined\<close> coerce to \<open>null\<close> whatever the declared type,
  the date type included. \<open>turnInto("abc", numeric)\<close> is \<open>null\<close> and \<open>turnInto("1", logic)\<close>
  is \<open>true\<close>. For any other raw value a date-typed coercion never raises and always gives
  a valid date: the parsed one, or the epoch when constructing the date raises or gives an
  invalid date. A nominal value is the string form cut to 255 characters, a text value the
  whole string form. The codec returns a value for every raw value under the logic and
  date types, and under the other types for every raw value that has a string form (every
  primitive, and every array or object that converts to one).
\<close>

theorem turnInto_total:
  "(data = JNull \<or> data = JUndefined \<longrightarrow> turnInto E data ty = Inr INull) \<and>
   turnInto E (JStr ''abc'') Numeric = Inr INull \<and>
   turnInto E (JStr ''1'') Logic = Inr (IBoolean True) \<and>
   (data \<noteq> JNull \<and> data \<noteq> JUndefined \<longrightarrow>
      turnInto E data Date
        = Inr (IDate (Some (case new_Date E data of Inr (Some t) \<Rightarrow> t | _ \<Rightarrow> 0)))) \<and>
   (data \<noteq> JNull \<and> data \<noteq> JUndefined \<and> ToString E data = Inr s \<longrightarrow>
      turnInto E data Nominal = Inr (IString (take 255 s)) \<and>
      turnInto E data Text = Inr (IString s)) \<and>
   (typeof data \<noteq> ''object'' \<longrightarrow> (\<exists>s. ToString E data = Inr s)) \<and>
   (ty = Logic \<or> ty = Date \<or> (\<exists>s. ToString E data = Inr s)
      \<longrightarrow> (\<exists>v. turnInto E data ty = Inr v))"
proof (intro conjI impI)
  show "turnInto E data ty = Inr INull" if "data = JNull \<or> data = JUndefined"
    using that by (auto simp: turnInto_def)
  show "turnInto E (JStr ''abc'') Numeric = Inr INull"
    by (simp add: turnInto_def StringToNumber_abc)
  show "turnInto E (JStr ''1'') Logic = Inr (IBoolean True)"
    by (simp add: turnInto_def)
  show "turnInto E data Date
        = Inr (IDate (Some (case new_Date E data of Inr (Some t) \<Rightarrow> t | _ \<Rightarrow> 0)))"
    if "data \<noteq> JNull \<and> data \<noteq> JUndefined"
    using that by (simp add: turnInto_Date)
  show "turnInto E data Nominal = Inr (IString (take 255 s))"
    if "data \<noteq> JNull \<and> data \<noteq> JUndefined \<and> ToString E data = Inr s"
    using that by (simp add: turnInto_def)
  show "turnInto E data Text = Inr (IString s)"
    if "data \<noteq> JNull \<and> data \<noteq> JUndefined \<and> ToString E data = Inr s"
    using that by (simp add: turnInto_def)
  show "\<exists>s. ToString E data = Inr s" if "typeof data \<noteq> ''object''"
    using that by (rule ToString_primitive)
  show "\<exists>v. turnInto E data ty = Inr v"
    if "ty = Logic \<or> ty = Date \<or> (\<exists>s. ToString E data = Inr s)"
    using that by (rule turnInto_returns)
qed

theorem turnInto_total_witness:
  "turnInto unspecified_engine JNull Date = Inr INull \<and>
   ToString unspecified_engine (JArr [JStr ''7'', JNull, JBool True]) = Inr ''7,,true'' \<and>
   turnInto unspecified_engine (JArr [JStr ''7'', JNull, JBool True]) Nominal
     = Inr (IString (take 255 ''7,,true'')) \<and>
   turnInto unspecified_engine (JArr [JStr ''7'', JNull, JBool True]) Text
     = Inr (IString ''7,,true'') \<and>
   (\<exists>v. turnInto unspecified_engine (JArr [JStr ''7'', JNull, JBool True]) Numeric = Inr v) \<and>
   new_Date unspecified_engine (JBool True) = Inr (Some 1) \<and>
   turnInto unspecified_engine (JBool True) Date = Inr (IDate (Some 1))"
proof -
  let ?a = "JArr [JStr ''7'', JNull, JBool True]"
  have 1: "ToString unspecified_engine ?a = Inr ''7,,true''"
    by simp
  have 2: "new_Date unspecified_engine (JBool True) = Inr (Some 1)"
    by (simp add: TimeClip_def)
  from turnInto_total[of JNull unspecified_engine Date]
  have 3: "turnInto unspecified_engine JNull Date = Inr INull" by simp
  from turnInto_total[of ?a unspecified_engine Numeric "''7,,true''"] 1
  have 4: "turnInto unspecified_engine ?a Nominal = Inr (IString (take 255 ''7,,true''))"
    and 5: "turnInto unspecified_engine ?a Text = Inr (IString ''7,,true'')"
    and 6: "\<exists>v. turnInto unspecified_engine ?a Numeric = Inr v"
    by simp_all
  from turnInto_total[of "JBool True" unspecified_engine Date] 2
  have 7: "turnInto unspecified_engine (JBool True) Date = Inr (IDate (Some 1))" by simp
  from 1 2 3 4 5 6 7 show ?thesis by blast
qed

theorem turnInto_undefined_date_counterexample:
  "turnInto unspecified_engine JUndefined Date = Inr INull \<and> INull \<noteq> IDate (Some 0)"
  by (simp add: turnInto_def)

section \<open>Properties of the compiler\<close>

subsection \<open>Negation\<close>

lemma negate_empty: "negateMongoQuery (MObj []) = Inr (MObj [])"
  by (simp add: negateMongoQuery.simps negate_keys.simps)

lemma negate_field:
  "\<not> startsWith k ''$'' \<Longrightarrow>
   negateMongoQuery (MObj [(k, v)]) = Inr (MObj [(k, MObj [(''$not'', v)])])"
  by (simp add: negateMongoQuery.simps negate_keys.simps obj_get_def)

lemma negate_not: "negateMongoQuery (MObj [(''$not'', x)]) = Inr x"
  by (simp add: negateMongoQuery.simps negate_keys.simps obj_get_def startsWith_def)

lemma negate_and:
  "negateMongoQuery (MObj [(''$and'', MArr xs)])
   = ebind (collect (map negateMongoQuery xs)) (\<lambda>ys. Inr (MObj [(''$or'', MArr ys)]))"
  by (simp add: negateMongoQuery.simps negate_keys.simps obj_get_def obj_delete_def startsWith_def ebind_def
      split: sum.splits)

lemma negate_or:
  "negateMongoQuery (MObj [(''$or'', MArr xs)])
   = ebind (collect (map negateMongoQuery xs)) (\<lambda>ys. Inr (MObj [(''$and'', MArr ys)]))"
  by (simp add: negateMongoQuery.simps negate_keys.simps obj_get_def obj_delete_def startsWith_def ebind_def
      split: sum.splits)

lemma ebind_assoc: "ebind (ebind m f) g = ebind m (\<lambda>x. ebind (f x) g)"
  by (cases m) simp_all

lemma compile_not_single:
  "toMongoFilter E fs (Some (QueryTree ''not'' opn l r [X]))
   = ebind (toMongoFilter E fs (Some X)) (\<lambda>x.
       ebind (negateMongoQuery x) (\<lambda>x'. Inr (MObj [(''$or'', MArr [x'])])))"
  by (cases "toMongoFilter E fs (Some X)")
     (simp_all add: toMongoFilter.simps(2)[of _ _ "''not''"] negate_and ebind_assoc)

lemma compile_allof_pair:
  "toMongoFilter E fs (Some (QueryTree ''allof'' opn l r [A, B]))
   = ebind (toMongoFilter E fs (Some A)) (\<lambda>a.
       ebind (toMongoFilter E fs (Some B)) (\<lambda>b. Inr (MObj [(''$and'', MArr [a, b])])))"
  by (cases "toMongoFilter E fs (Some A)"; cases "toMongoFilter E fs (Some B)")
     (simp_all add: toMongoFilter.simps(2)[of _ _ "''allof''"])

lemma compile_anyof_pair:
  "toMongoFilter E fs (Some (QueryTree ''anyof'' opn l r [A, B]))
   = ebind (toMongoFilter E fs (Some A)) (\<lambda>a.
       ebind (toMongoFilter E fs (Some B)) (\<lambda>b. Inr (MObj [(''$or'', MArr [a, b])])))"
  by (cases "toMongoFilter E fs (Some A)"; cases "toMongoFilter E fs (Some B)")
     (simp_all add: toMongoFilter.simps(2)[of _ _ "''anyof''"])

lemma any_opt_flatten:
  "all_opt [any_opt [any_opt [p, q]]] = all_opt [any_opt [any_opt [p], any_opt [q]]]"
  by (cases p; cases q) (auto simp: all_opt_def any_opt_def)

lemma matches_or:
  "fs \<noteq> [] \<Longrightarrow> matches sem d (MObj [(''$or'', MArr fs)]) = all_opt [any_opt (map (matches sem d) fs)]"
  by (simp add: matches.simps)

lemma matches_or_flatten:
  "matches sem d (MObj [(''$or'', MArr [MObj [(''$or'', MArr [a, b])]])])
   = matches sem d (MObj [(''$or'', MArr [MObj [(''$or'', MArr [a])], MObj [(''$or'', MArr [b])]])])"
proof -
  have "all_opt [any_opt [all_opt [any_opt [p, q]]]]
        = all_opt [any_opt [all_opt [any_opt [p]], all_opt [any_opt [q]]]]" for p q
    by (cases p; cases q) (auto simp: all_opt_def any_opt_def)
  then show ?thesis by (simp add: matches_or)
qed

lemma all_opt_single: "all_opt [p] = p"
  by (cases p) (auto simp: all_opt_def)

lemma any_opt_single: "any_opt [p] = p"
  by (cases p) (auto simp: any_opt_def)

lemma any_opt_pair: "any_opt [Some p, Some q] = Some (p \<or> q)"
  by (auto simp: any_opt_def)

lemma matches_field:
  "\<not> startsWith k ''$'' \<Longrightarrow> matches sem d (MObj [(k, v)]) = field_holds (sem d k) v"
  by (auto simp: matches.simps all_opt_single startsWith_def)

lemma is_operator_expression_not: "is_operator_expression (MObj [(''$not'', v)])"
  by (simp add: is_operator_expression_def startsWith_def)

lemma matches_negated_field:
  assumes "\<not> startsWith k ''$''" and "is_operator_expression v"
  shows "matches sem d (MObj [(k, MObj [(''$not'', v)])])
         = map_option Not (matches sem d (MObj [(k, v)]))"
  using assms
  by (simp add: matches_field field_holds_def is_operator_expression_not
      operator_holds.simps(1)[of _ "[(''$not'', v)]"] all_opt_single)

lemma de_morgan_compiled:
  "(case (toMongoFilter E fs (Some (QueryTree ''not'' o1 l1 r1 [QueryTree ''allof'' o2 l2 r2 [A, B]])),
          toMongoFilter E fs (Some (QueryTree ''anyof'' o3 l3 r3
            [QueryTree ''not'' o4 l4 r4 [A], QueryTree ''not'' o5 l5 r5 [B]]))) of
      (Inr f, Inr g) \<Rightarrow> \<forall>d. matches sem d f = matches sem d g
    | (Inl e, Inl e') \<Rightarrow> True
    | _ \<Rightarrow> False)"
proof -
  let ?cA = "toMongoFilter E fs (Some A)" and ?cB = "toMongoFilter E fs (Some B)"
  show ?thesis
  proof (cases ?cA)
    case (Inl e)
    then show ?thesis
      by (simp add: compile_not_single compile_allof_pair compile_anyof_pair)
  next
    case a: (Inr a)
    show ?thesis
    proof (cases ?cB)
      case (Inl e)
      with a show ?thesis
        by (cases "negateMongoQuery a")
           (simp_all add: compile_not_single compile_allof_pair compile_anyof_pair)
    next
      case b: (Inr b)
      show ?thesis
      proof (cases "negateMongoQuery a")
        case (Inl e)
        with a b show ?thesis
          by (simp add: compile_not_single compile_allof_pair compile_anyof_pair negate_and)
      next
        case a': (Inr a')
        show ?thesis
        proof (cases "negateMongoQuery b")
          case (Inl e)
          with a b a' show ?thesis
            by (simp add: compile_not_single compile_allof_pair compile_anyof_pair negate_and)
        next
          case (Inr b')
          with a b a' show ?thesis
            by (simp add: compile_not_single compile_allof_pair compile_anyof_pair negate_and
                matches_or_flatten)
        qed
      qed
    qed
  qed
qed

lemma complement_compiled:
  assumes A: "toMongoFilter E fs (Some A) = Inr (MObj [(ka, va)])"
    and B: "toMongoFilter E fs (Some B) = Inr (MObj [(kb, vb)])"
    and ka: "\<not> startsWith ka ''$''" "is_operator_expression va"
    and kb: "\<not> startsWith kb ''$''" "is_operator_expression vb"
    and a: "matches sem d (MObj [(ka, va)]) = Some a"
    and b: "matches sem d (MObj [(kb, vb)]) = Some b"
  shows "\<exists>f. toMongoFilter E fs (Some (QueryTree ''not'' o1 l1 r1 [QueryTree ''allof'' o2 l2 r2 [A, B]]))
              = Inr f \<and> matches sem d f = Some (\<not> (a \<and> b))"
proof -
  let ?na = "MObj [(ka, MObj [(''$not'', va)])]" and ?nb = "MObj [(kb, MObj [(''$not'', vb)])]"
  have "toMongoFilter E fs (Some (QueryTree ''not'' o1 l1 r1 [QueryTree ''allof'' o2 l2 r2 [A, B]]))
        = Inr (MObj [(''$or'', MArr [MObj [(''$or'', MArr [?na, ?nb])]])])"
    using A B ka(1) kb(1)
    by (simp add: compile_not_single compile_allof_pair negate_and negate_field)
  moreover have "matches sem d ?na = Some (\<not> a)" "matches sem d ?nb = Some (\<not> b)"
    using ka kb a b by (simp_all add: matches_negated_field)
  then have "matches sem d (MObj [(''$or'', MArr [MObj [(''$or'', MArr [?na, ?nb])]])])
             = Some (\<not> (a \<and> b))"
    by (simp add: matches_or all_opt_single any_opt_single any_opt_pair)
  ultimately show ?thesis by blast
qed

subsection \<open>Escaped literals as patterns\<close>

lemma special_not_alnum: "regexp_special c \<Longrightarrow> \<not> is_alnum c"
  by (auto simp: regexp_special_def is_alnum_def is_whitespace_def backslash_def Let_def)

lemma plain_char:
  assumes "\<not> regexp_special c"
  shows "c \<noteq> CHR ''^''" "c \<noteq> CHR ''$''" "c \<noteq> backslash" "c \<noteq> CHR ''.''"
    "c \<notin> set ''*+?()[]{}|''" "c \<notin> set ''*+?''"
  using assms by (auto simp: regexp_special_def)

lemma backslash_neq:
  "backslash \<noteq> CHR ''^''" "backslash \<noteq> CHR ''$''" "backslash \<notin> set ''*+?''"
  by (simp_all add: backslash_def)

lemma quantified_plain: "no_quantifier r \<Longrightarrow> quantified a r = (One a, r)"
  by (cases r) (auto simp: quantified_def no_quantifier_def)

lemma no_quantifier_escape: "no_quantifier rest \<Longrightarrow> no_quantifier (escape_text s @ rest)"
proof (cases s)
  case Nil
  then show "no_quantifier rest \<Longrightarrow> no_quantifier (escape_text s @ rest)"
    by (simp add: escape_text_def)
next
  case (Cons c s')
  then show "no_quantifier (escape_text s @ rest)"
    using backslash_neq(3) plain_char(6)[of c]
    by (cases "regexp_special c") (simp_all add: escape_text_def no_quantifier_def)
qed

lemma escape_text_Cons:
  "escape_text (c # s) = (if regexp_special c then [backslash, c] else [c]) @ escape_text s"
  by (simp add: escape_text_def)

lemma parse_escape:
  "no_quantifier rest \<Longrightarrow>
   parse_pattern (escape_text s @ rest)
   = map_option ((@) (map (\<lambda>c. One (Lit c)) s)) (parse_pattern rest)"
proof (induction s)
  case Nil
  show ?case by (simp add: escape_text_def option.map_ident)
next
  case (Cons c s)
  from Cons.prems have nq: "no_quantifier (escape_text s @ rest)"
    by (rule no_quantifier_escape)
  have step: "parse_pattern (escape_text (c # s) @ rest)
              = map_option (Cons (One (Lit c))) (parse_pattern (escape_text s @ rest))"
  proof (cases "regexp_special c")
    case True
    then have "\<not> is_alnum c" by (rule special_not_alnum)
    with True nq show ?thesis
      by (simp add: escape_text_Cons parse_pattern.simps(2)[of backslash] backslash_neq
          quantified_plain)
  next
    case False
    with nq show ?thesis
      using plain_char[OF False]
      by (simp add: escape_text_Cons parse_pattern.simps(2)[of c] quantified_plain)
  qed
  show ?case
    by (simp add: step Cons.IH[OF Cons.prems] option.map_comp comp_def)
qed

lemma parse_dollar: "parse_pattern ''$'' = Some [Eol]"
  by (simp add: parse_pattern.simps)

lemma parse_contains: "parse_pattern (escape_text s) = Some (map (\<lambda>c. One (Lit c)) s)"
  using parse_escape[of "[]" s] by (simp add: no_quantifier_def parse_pattern.simps(1))

lemma parse_starts:
  "parse_pattern (''^'' @ escape_text s) = Some (Bol # map (\<lambda>c. One (Lit c)) s)"
  by (simp add: parse_pattern.simps(2)[of "CHR ''^''"] parse_contains)

lemma parse_ends:
  "parse_pattern (escape_text s @ ''$'') = Some (map (\<lambda>c. One (Lit c)) s @ [Eol])"
  using parse_escape[of "''$''" s] by (simp add: no_quantifier_def parse_dollar)

lemma match_literal:
  "match_here ic (map (\<lambda>c. One (Lit c)) s @ items) at_start t \<longleftrightarrow>
   (\<exists>u t'. t = u @ t' \<and> map (canonicalize ic) u = map (canonicalize ic) s \<and>
            match_here ic items (at_start \<and> s = []) t')"
proof (induction s arbitrary: at_start t)
  case Nil
  show ?case by simp
next
  case (Cons c s)
  show ?case
  proof (cases t)
    case Nil
    then show ?thesis by simp
  next
    case (Cons x t0)
    have "match_here ic (map (\<lambda>c. One (Lit c)) (c # s) @ items) at_start t \<longleftrightarrow>
          canonicalize ic c = canonicalize ic x \<and>
          (\<exists>u t'. t0 = u @ t' \<and> map (canonicalize ic) u = map (canonicalize ic) s \<and>
                   match_here ic items False t')"
      using Cons.IH[of False t0] Cons by (simp add: atom_matches_def)
    also have "\<dots> \<longleftrightarrow>
          (\<exists>u t'. t = u @ t' \<and> map (canonicalize ic) u = map (canonicalize ic) (c # s) \<and>
                   match_here ic items False t')"
    proof
      assume "canonicalize ic c = canonicalize ic x \<and>
          (\<exists>u t'. t0 = u @ t' \<and> map (canonicalize ic) u = map (canonicalize ic) s \<and>
                   match_here ic items False t')"
      then obtain u t' where "canonicalize ic c = canonicalize ic x" "t0 = u @ t'"
        "map (canonicalize ic) u = map (canonicalize ic) s" "match_here ic items False t'"
        by blast
      with Cons have "t = (x # u) @ t' \<and>
          map (canonicalize ic) (x # u) = map (canonicalize ic) (c # s) \<and>
          match_here ic items False t'"
        by simp
      then show "\<exists>u t'. t = u @ t' \<and> map (canonicalize ic) u = map (canonicalize ic) (c # s) \<and>
                   match_here ic items False t'"
        by blast
    next
      assume "\<exists>u t'. t = u @ t' \<and> map (canonicalize ic) u = map (canonicalize ic) (c # s) \<and>
                   match_here ic items False t'"
      then obtain u t' where t: "t = u @ t'"
        and m: "map (canonicalize ic) u = map (canonicalize ic) (c # s)"
        and r: "match_here ic items False t'"
        by blast
      from m obtain y u0 where u: "u = y # u0" by (cases u) auto
      with t Cons m r show "canonicalize ic c = canonicalize ic x \<and>
          (\<exists>u t'. t0 = u @ t' \<and> map (canonicalize ic) u = map (canonicalize ic) s \<and>
                   match_here ic items False t')"
        by auto
    qed
    finally show ?thesis by simp
  qed
qed

lemma match_literal_only:
  "match_here ic (map (\<lambda>c. One (Lit c)) s) at_start t \<longleftrightarrow>
   prefix (map (canonicalize ic) s) (map (canonicalize ic) t)"
proof -
  have "match_here ic (map (\<lambda>c. One (Lit c)) s) at_start t \<longleftrightarrow>
        (\<exists>u t'. t = u @ t' \<and> map (canonicalize ic) u = map (canonicalize ic) s)"
    using match_literal[of ic s "[]" at_start t] by simp
  also have "\<dots> \<longleftrightarrow> prefix (map (canonicalize ic) s) (map (canonicalize ic) t)"
  proof
    assume "\<exists>u t'. t = u @ t' \<and> map (canonicalize ic) u = map (canonicalize ic) s"
    then show "prefix (map (canonicalize ic) s) (map (canonicalize ic) t)"
      by (auto simp: prefix_def)
  next
    assume "prefix (map (canonicalize ic) s) (map (canonicalize ic) t)"
    then obtain zs where "map (canonicalize ic) t = map (canonicalize ic) s @ zs"
      by (auto simp: prefix_def)
    then show "\<exists>u t'. t = u @ t' \<and> map (canonicalize ic) u = map (canonicalize ic) s"
      by (auto simp: map_eq_append_conv)
  qed
  finally show ?thesis .
qed

lemma match_literal_end:
  "match_here ic (map (\<lambda>c. One (Lit c)) s @ [Eol]) at_start t \<longleftrightarrow>
   map (canonicalize ic) t = map (canonicalize ic) s"
  using match_literal[of ic s "[Eol]" at_start t] by (auto simp: )

lemma regex_search_iff:
  "regex_search ic items t \<longleftrightarrow> (\<exists>i\<le>length t. match_here ic items (i = 0) (drop i t))"
proof -
  have "set [0..<Suc (length t)] = {i. i \<le> length t}" by auto
  then show ?thesis
    unfolding regex_search_def list_ex_iff by blast
qed

lemma search_contains:
  "regex_search ic (map (\<lambda>c. One (Lit c)) s) t \<longleftrightarrow>
   sublist (map (canonicalize ic) s) (map (canonicalize ic) t)"
proof -
  have "regex_search ic (map (\<lambda>c. One (Lit c)) s) t \<longleftrightarrow>
        (\<exists>i\<le>length t. prefix (map (canonicalize ic) s) (map (canonicalize ic) (drop i t)))"
    by (simp add: regex_search_iff match_literal_only)
  also have "\<dots> \<longleftrightarrow> sublist (map (canonicalize ic) s) (map (canonicalize ic) t)"
  proof
    assume "\<exists>i\<le>length t. prefix (map (canonicalize ic) s) (map (canonicalize ic) (drop i t))"
    then obtain i zs where "map (canonicalize ic) (drop i t) = map (canonicalize ic) s @ zs"
      by (auto simp: prefix_def)
    then have "map (canonicalize ic) t
               = map (canonicalize ic) (take i t) @ map (canonicalize ic) s @ zs"
      by (metis append_take_drop_id map_append)
    then show "sublist (map (canonicalize ic) s) (map (canonicalize ic) t)"
      by (auto simp: sublist_def)
  next
    assume "sublist (map (canonicalize ic) s) (map (canonicalize ic) t)"
    then obtain ps ss where e: "map (canonicalize ic) t = ps @ map (canonicalize ic) s @ ss"
      by (auto simp: sublist_def)
    let ?i = "length ps"
    from e have "length ps \<le> length (map (canonicalize ic) t)" by simp
    then have le: "?i \<le> length t" by simp
    from e have "drop ?i (map (canonicalize ic) t) = map (canonicalize ic) s @ ss" by simp
    then have "prefix (map (canonicalize ic) s) (map (canonicalize ic) (drop ?i t))"
      by (simp add: drop_map prefix_def)
    with le show "\<exists>i\<le>length t. prefix (map (canonicalize ic) s) (map (canonicalize ic) (drop i t))"
      by blast
  qed
  finally show ?thesis .
qed

lemma search_starts:
  "regex_search ic (Bol # map (\<lambda>c. One (Lit c)) s) t \<longleftrightarrow>
   prefix (map (canonicalize ic) s) (map (canonicalize ic) t)"
proof -
  have "regex_search ic (Bol # map (\<lambda>c. One (Lit c)) s) t \<longleftrightarrow>
        (\<exists>i\<le>length t. i = 0 \<and> match_here ic (map (\<lambda>c. One (Lit c)) s) (i = 0) (drop i t))"
    by (auto simp: regex_search_iff)
  also have "\<dots> \<longleftrightarrow> match_here ic (map (\<lambda>c. One (Lit c)) s) True t"
    by auto
  finally show ?thesis by (simp add: match_literal_only)
qed

lemma search_ends:
  "regex_search ic (map (\<lambda>c. One (Lit c)) s @ [Eol]) t \<longleftrightarrow>
   suffix (map (canonicalize ic) s) (map (canonicalize ic) t)"
proof -
  have "regex_search ic (map (\<lambda>c. One (Lit c)) s @ [Eol]) t \<longleftrightarrow>
        (\<exists>i\<le>length t. map (canonicalize ic) (drop i t) = map (canonicalize ic) s)"
    by (simp add: regex_search_iff match_literal_end)
  also have "\<dots> \<longleftrightarrow> suffix (map (canonicalize ic) s) (map (canonicalize ic) t)"
  proof
    assume "\<exists>i\<le>length t. map (canonicalize ic) (drop i t) = map (canonicalize ic) s"
    then obtain i where "map (canonicalize ic) (drop i t) = map (canonicalize ic) s" by blast
    then have "map (canonicalize ic) t
               = map (canonicalize ic) (take i t) @ map (canonicalize ic) s"
      by (metis append_take_drop_id map_append)
    then show "suffix (map (canonicalize ic) s) (map (canonicalize ic) t)"
      by (auto simp: suffix_def)
  next
    assume "suffix (map (canonicalize ic) s) (map (canonicalize ic) t)"
    then obtain zs where e: "map (canonicalize ic) t = zs @ map (canonicalize ic) s"
      by (auto simp: suffix_def)
    let ?i = "length zs"
    from e have "length zs \<le> length (map (canonicalize ic) t)" by simp
    then have le: "?i \<le> length t" by simp
    from e have "drop ?i (map (canonicalize ic) t) = map (canonicalize ic) s" by simp
    then have "map (canonicalize ic) (drop ?i t) = map (canonicalize ic) s"
      by (simp add: drop_map)
    with le show "\<exists>i\<le>length t. map (canonicalize ic) (drop i t) = map (canonicalize ic) s"
      by blast
  qed
  finally show ?thesis .
qed

lemma RegExp_test_cn:
  "RegExp_test (escape_text s) [] t = Some (literal_match ''cn'' s t)"
  "RegExp_test (escape_text s) ''i'' t = Some (literal_match ''cni'' s t)"
  by (simp_all add: RegExp_test_def parse_contains search_contains literal_match_def)

lemma RegExp_test_sw:
  "RegExp_test (''^'' @ escape_text s) [] t = Some (literal_match ''sw'' s t)"
  "RegExp_test (''^'' @ escape_text s) ''i'' t = Some (literal_match ''swi'' s t)"
  by (simp_all add: RegExp_test_def parse_starts search_starts literal_match_def
      del: append.simps)

lemma RegExp_test_ew:
  "RegExp_test (escape_text s @ ''$'') [] t = Some (literal_match ''ew'' s t)"
  "RegExp_test (escape_text s @ ''$'') ''i'' t = Some (literal_match ''ewi'' s t)"
  by (simp_all add: RegExp_test_def parse_ends search_ends literal_match_def)

subsection \<open>Compiled leaves\<close>

lemma turnInto_string: "\<exists>cmp. turnInto E (JStr s) ty = Inr cmp"
  by (rule turnInto_returns) simp

lemma turnInto_string_literal:
  "ty = Text \<or> ty = Nominal \<Longrightarrow>
   turnInto E (JStr s) ty = Inr (IString (if ty = Nominal then take 255 s else s))"
  by (auto simp: turnInto_def)

lemma operator_expression_single:
  "startsWith opr ''$'' \<Longrightarrow> is_operator_expression (MObj [(opr, v)])"
  by (simp add: is_operator_expression_def)

lemma compile_leaf:
  assumes "ty \<notin> set combinator_types" and "array_get fs l = Some f"
    and "turnInto E (JStr s) (ftype f) = Inr cmp"
  shows "toMongoFilter E fs (Some (QueryTree ty opn l (Some s) cs)) =
     (if opn = ''null'' then
        Inr (MObj [(''$or'', MArr [MObj [(''$exists'', MVal (IBoolean False))],
                                  MObj [(''$eq'', MVal INull)]])])
      else if opn = ''eq'' then Inr (MObj [(name f, MObj [(''$eq'', MVal cmp)])])
      else if opn = ''lt'' then Inr (MObj [(name f, MObj [(''$lt'', MVal cmp)])])
      else if opn = ''le'' \<or> opn = ''lte'' then Inr (MObj [(name f, MObj [(''$lte'', MVal cmp)])])
      else if opn = ''gt'' then Inr (MObj [(name f, MObj [(''$gt'', MVal cmp)])])
      else if opn = ''ge'' \<or> opn = ''gte'' then Inr (MObj [(name f, MObj [(''$gte'', MVal cmp)])])
      else if opn = ''cn'' then regex_filter f [] [] [] cmp
      else if opn = ''cni'' then regex_filter f [] [] ''i'' cmp
      else if opn = ''sw'' then regex_filter f ''^'' [] [] cmp
      else if opn = ''swi'' then regex_filter f ''^'' [] ''i'' cmp
      else if opn = ''ew'' then regex_filter f [] ''$'' [] cmp
      else if opn = ''ewi'' then regex_filter f [] ''$'' ''i'' cmp
      else Inr (MObj []))"
  using assms
  by (subst toMongoFilter.simps(2)) (simp add: combinator_types_def)

lemma compile_valid_leaf:
  assumes "valid_leaf fs A"
  shows "\<exists>k v. toMongoFilter E fs (Some A) = Inr (MObj [(k, v)]) \<and>
               \<not> startsWith k ''$'' \<and> is_operator_expression v"
proof -
  obtain ty opn l r cs where A: "A = QueryTree ty opn l r cs" by (cases A)
  from assms A obtain s f where ty: "ty \<notin> set combinator_types" and r: "r = Some s"
    and f: "array_get fs l = Some f" and k: "\<not> startsWith (name f) ''$''"
    and opn: "opn \<in> set comparison_operations \<or>
              opn \<in> set string_operations \<and> ftype f \<in> {Text, Nominal}"
    by (auto simp: valid_leaf_def split: option.splits)
  obtain cmp where cmp: "turnInto E (JStr s) (ftype f) = Inr cmp"
    using turnInto_string by blast
  note c = compile_leaf[OF ty f cmp, of opn cs]
  from opn show ?thesis
  proof
    assume "opn \<in> set comparison_operations"
    then have "\<exists>opr. toMongoFilter E fs (Some A) = Inr (MObj [(name f, MObj [(opr, MVal cmp)])])
                     \<and> startsWith opr ''$''"
      unfolding A r c by (auto simp: comparison_operations_def startsWith_def)
    with k show ?thesis by (auto simp: operator_expression_single)
  next
    assume s: "opn \<in> set string_operations \<and> ftype f \<in> {Text, Nominal}"
    then have "cmp = IString (if ftype f = Nominal then take 255 s else s)"
      using cmp turnInto_string_literal[of "ftype f" E s] by auto
    with s have "\<exists>src flags. toMongoFilter E fs (Some A)
                   = Inr (MObj [(name f, MObj [(''$regex'', MRegExp src flags)])])"
      unfolding A r c
      by (auto simp: string_operations_def regex_filter_def escapeRegExp_def)
    with k show ?thesis by (auto simp: operator_expression_single startsWith_def)
  qed
qed

text \<open>
  C2. For all leaves \<open>A\<close> and \<open>B\<close> (valid or not), compiling \<open>not(allof(A, B))\<close> and
  compiling \<open>anyof(not(A), not(B))\<close> either both raise or both return filters that hold of
  exactly the same documents, whatever the atomic operators mean. Negation is pushed
  through the structure: an \<open>$and\<close> becomes the \<open>$or\<close> of the negated elements, an \<open>$or\<close> the
  \<open>$and\<close> of the negated elements, a \<open>$not\<close> its operand, and a comparison on a field its
  \<open>$not\<close>, which is its logical complement. For valid leaves both trees compile, and
  the filter of \<open>not(allof(A, B))\<close> holds of a document exactly when the filters of \<open>A\<close>
  and \<open>B\<close> do not both hold.
\<close>

theorem toMongoFilter_de_morgan:
  "(case (toMongoFilter E fs (Some (QueryTree ''not'' o1 l1 r1 [QueryTree ''allof'' o2 l2 r2 [A, B]])),
          toMongoFilter E fs (Some (QueryTree ''anyof'' o3 l3 r3
            [QueryTree ''not'' o4 l4 r4 [A], QueryTree ''not'' o5 l5 r5 [B]]))) of
      (Inr f, Inr g) \<Rightarrow> \<forall>d. matches sem d f = matches sem d g
    | (Inl e, Inl e') \<Rightarrow> True
    | _ \<Rightarrow> False) \<and>
   negateMongoQuery (MObj [(''$and'', MArr xs)])
     = ebind (collect (map negateMongoQuery xs)) (\<lambda>ys. Inr (MObj [(''$or'', MArr ys)])) \<and>
   negateMongoQuery (MObj [(''$or'', MArr xs)])
     = ebind (collect (map negateMongoQuery xs)) (\<lambda>ys. Inr (MObj [(''$and'', MArr ys)])) \<and>
   negateMongoQuery (MObj [(''$not'', x)]) = Inr x \<and>
   (\<not> startsWith k ''$'' \<longrightarrow>
      negateMongoQuery (MObj [(k, v)]) = Inr (MObj [(k, MObj [(''$not'', v)])]) \<and>
      (is_operator_expression v \<longrightarrow>
         matches sem d (MObj [(k, MObj [(''$not'', v)])])
           = map_option Not (matches sem d (MObj [(k, v)])))) \<and>
   (valid_leaf fs A \<and> valid_leaf fs B \<longrightarrow>
      (\<exists>fA fB f g.
         toMongoFilter E fs (Some A) = Inr fA \<and> toMongoFilter E fs (Some B) = Inr fB \<and>
         toMongoFilter E fs (Some (QueryTree ''not'' o1 l1 r1 [QueryTree ''allof'' o2 l2 r2 [A, B]]))
           = Inr f \<and>
         toMongoFilter E fs (Some (QueryTree ''anyof'' o3 l3 r3
            [QueryTree ''not'' o4 l4 r4 [A], QueryTree ''not'' o5 l5 r5 [B]])) = Inr g \<and>
         (\<forall>d a b. matches sem d fA = Some a \<longrightarrow> matches sem d fB = Some b \<longrightarrow>
            matches sem d f = Some (\<not> (a \<and> b)) \<and> matches sem d g = Some (\<not> (a \<and> b)))))"
proof (intro conjI impI)
  show "case (toMongoFilter E fs (Some (QueryTree ''not'' o1 l1 r1 [QueryTree ''allof'' o2 l2 r2 [A, B]])),
          toMongoFilter E fs (Some (QueryTree ''anyof'' o3 l3 r3
            [QueryTree ''not'' o4 l4 r4 [A], QueryTree ''not'' o5 l5 r5 [B]]))) of
      (Inr f, Inr g) \<Rightarrow> \<forall>d. matches sem d f = matches sem d g
    | (Inl e, Inl e') \<Rightarrow> True
    | _ \<Rightarrow> False"
    by (rule de_morgan_compiled)
  show "negateMongoQuery (MObj [(''$and'', MArr xs)])
     = ebind (collect (map negateMongoQuery xs)) (\<lambda>ys. Inr (MObj [(''$or'', MArr ys)]))"
    by (rule negate_and)
  show "negateMongoQuery (MObj [(''$or'', MArr xs)])
     = ebind (collect (map negateMongoQuery xs)) (\<lambda>ys. Inr (MObj [(''$and'', MArr ys)]))"
    by (rule negate_or)
  show "negateMongoQuery (MObj [(''$not'', x)]) = Inr x"
    by (rule negate_not)
  show "negateMongoQuery (MObj [(k, v)]) = Inr (MObj [(k, MObj [(''$not'', v)])])"
    if "\<not> startsWith k ''$''"
    using that by (rule negate_field)
  show "matches sem d (MObj [(k, MObj [(''$not'', v)])])
           = map_option Not (matches sem d (MObj [(k, v)]))"
    if "\<not> startsWith k ''$''" "is_operator_expression v"
    using that by (rule matches_negated_field)
  assume valid: "valid_leaf fs A \<and> valid_leaf fs B"
  from valid obtain ka va where A: "toMongoFilter E fs (Some A) = Inr (MObj [(ka, va)])"
    and ka: "\<not> startsWith ka ''$''" "is_operator_expression va"
    using compile_valid_leaf[of fs A E] by blast
  from valid obtain kb vb where B: "toMongoFilter E fs (Some B) = Inr (MObj [(kb, vb)])"
    and kb: "\<not> startsWith kb ''$''" "is_operator_expression vb"
    using compile_valid_leaf[of fs B E] by blast
  let ?na = "MObj [(ka, MObj [(''$not'', va)])]" and ?nb = "MObj [(kb, MObj [(''$not'', vb)])]"
  let ?f = "MObj [(''$or'', MArr [MObj [(''$or'', MArr [?na, ?nb])]])]"
  let ?g = "MObj [(''$or'', MArr [MObj [(''$or'', MArr [?na])], MObj [(''$or'', MArr [?nb])]])]"
  have f: "toMongoFilter E fs (Some (QueryTree ''not'' o1 l1 r1 [QueryTree ''allof'' o2 l2 r2 [A, B]]))
        = Inr ?f"
    using A B ka(1) kb(1)
    by (simp add: compile_not_single compile_allof_pair negate_and negate_field)
  have g: "toMongoFilter E fs (Some (QueryTree ''anyof'' o3 l3 r3
            [QueryTree ''not'' o4 l4 r4 [A], QueryTree ''not'' o5 l5 r5 [B]])) = Inr ?g"
    using A B ka(1) kb(1)
    by (simp add: compile_not_single compile_anyof_pair negate_field)
  have sem: "matches sem d ?f = Some (\<not> (a \<and> b)) \<and> matches sem d ?g = Some (\<not> (a \<and> b))"
    if a: "matches sem d (MObj [(ka, va)]) = Some a"
      and b: "matches sem d (MObj [(kb, vb)]) = Some b" for d a b
  proof -
    have "matches sem d ?na = Some (\<not> a)" "matches sem d ?nb = Some (\<not> b)"
      using ka kb a b by (simp_all add: matches_negated_field)
    then have "matches sem d ?f = Some (\<not> (a \<and> b))"
      by (simp add: matches_or all_opt_single any_opt_single any_opt_pair)
    then show ?thesis by (simp add: matches_or_flatten)
  qed
  from A B f g sem
  show "\<exists>fA fB f g.
         toMongoFilter E fs (Some A) = Inr fA \<and> toMongoFilter E fs (Some B) = Inr fB \<and>
         toMongoFilter E fs (Some (QueryTree ''not'' o1 l1 r1 [QueryTree ''allof'' o2 l2 r2 [A, B]]))
           = Inr f \<and>
         toMongoFilter E fs (Some (QueryTree ''anyof'' o3 l3 r3
            [QueryTree ''not'' o4 l4 r4 [A], QueryTree ''not'' o5 l5 r5 [B]])) = Inr g \<and>
         (\<forall>d a b. matches sem d fA = Some a \<longrightarrow> matches sem d fB = Some b \<longrightarrow>
            matches sem d f = Some (\<not> (a \<and> b)) \<and> matches sem d g = Some (\<not> (a \<and> b)))"
    by blast
qed

lemmas compile_eval =
  compile_not_single compile_allof_pair compile_anyof_pair negate_and negate_field
  turnInto_def StringToNumber_def trim_def is_whitespace_def decimal_literal_def
  unsigned_decimal_def exponent_part_def is_digit_def digits_value_def digit_value_def
  scale10_def combinator_types_def startsWith_def Let_def

lemmas matches_eval =
  matches.simps field_holds_def operator_holds.simps is_operator_expression_def
  startsWith_def all_opt_def any_opt_def

theorem toMongoFilter_de_morgan_witness:
  "valid_leaf iris_features species_is_setosa \<and> valid_leaf iris_features sepal_over_5 \<and>
   matches example_sem setosa_49 (MObj [(''species'', MObj [(''$eq'', MVal (IString ''setosa''))])])
     = Some True \<and>
   matches example_sem setosa_49 (MObj [(''sepalLength'', MObj [(''$gt'', MVal (INumber (Fin 5)))])])
     = Some False \<and>
   (\<exists>f g. toMongoFilter unspecified_engine iris_features
            (Some (QueryTree ''not'' [] (Fin (- 1)) None
               [QueryTree ''allof'' [] (Fin (- 1)) None [species_is_setosa, sepal_over_5]])) = Inr f \<and>
          toMongoFilter unspecified_engine iris_features
            (Some (QueryTree ''anyof'' [] (Fin (- 1)) None
               [QueryTree ''not'' [] (Fin (- 1)) None [species_is_setosa],
                QueryTree ''not'' [] (Fin (- 1)) None [sepal_over_5]])) = Inr g \<and>
          matches example_sem setosa_49 f = Some True \<and>
          matches example_sem setosa_49 g = Some True) \<and>
   \<not> startsWith ''species'' ''$'' \<and>
   is_operator_expression (MObj [(''$eq'', MVal (IString ''setosa''))]) \<and>
   matches example_sem setosa_49
     (MObj [(''species'', MObj [(''$not'', MObj [(''$eq'', MVal (IString ''setosa''))])])])
     = Some False"
proof -
  let ?FA = "MObj [(''species'', MObj [(''$eq'', MVal (IString ''setosa''))])]"
  let ?FB = "MObj [(''sepalLength'', MObj [(''$gt'', MVal (INumber (Fin 5)))])]"
  have vA: "valid_leaf iris_features species_is_setosa"
    by (simp add: valid_leaf_def iris_features_def species_is_setosa_def combinator_types_def
        comparison_operations_def startsWith_def)
  have vB: "valid_leaf iris_features sepal_over_5"
    by (simp add: valid_leaf_def iris_features_def sepal_over_5_def combinator_types_def
        comparison_operations_def startsWith_def)
  have cA: "toMongoFilter unspecified_engine iris_features (Some species_is_setosa) = Inr ?FA"
    by (simp add: species_is_setosa_def iris_features_def toMongoFilter.simps turnInto_def
        combinator_types_def)
  have cB: "toMongoFilter unspecified_engine iris_features (Some sepal_over_5) = Inr ?FB"
    by (simp add: sepal_over_5_def iris_features_def toMongoFilter.simps compile_eval)
  have mA: "matches example_sem setosa_49 ?FA = Some True"
    by (simp add: matches_eval example_sem_def setosa_49_def)
  have mB: "matches example_sem setosa_49 ?FB = Some False"
    by (simp add: matches_eval example_sem_def setosa_49_def)
  have k: "\<not> startsWith ''species'' ''$''"
    by (simp add: startsWith_def)
  have v: "is_operator_expression (MObj [(''$eq'', MVal (IString ''setosa''))])"
    by (simp add: is_operator_expression_def startsWith_def)
  note T = toMongoFilter_de_morgan[where E = unspecified_engine and fs = iris_features
      and A = species_is_setosa and B = sepal_over_5
      and ?o1.0 = "[]" and ?l1.0 = "Fin (- 1)" and ?r1.0 = None
      and ?o2.0 = "[]" and ?l2.0 = "Fin (- 1)" and ?r2.0 = None
      and ?o3.0 = "[]" and ?l3.0 = "Fin (- 1)" and ?r3.0 = None
      and ?o4.0 = "[]" and ?l4.0 = "Fin (- 1)" and ?r4.0 = None
      and ?o5.0 = "[]" and ?l5.0 = "Fin (- 1)" and ?r5.0 = None
      and sem = example_sem and xs = "[]" and x = "MObj []" and k = "''species''"
      and v = "MObj [(''$eq'', MVal (IString ''setosa''))]" and d = setosa_49]
  from T vA vB obtain fA fB f g where
    "toMongoFilter unspecified_engine iris_features (Some species_is_setosa) = Inr fA"
    "toMongoFilter unspecified_engine iris_features (Some sepal_over_5) = Inr fB"
    and f: "toMongoFilter unspecified_engine iris_features
            (Some (QueryTree ''not'' [] (Fin (- 1)) None
               [QueryTree ''allof'' [] (Fin (- 1)) None [species_is_setosa, sepal_over_5]])) = Inr f"
    and g: "toMongoFilter unspecified_engine iris_features
            (Some (QueryTree ''anyof'' [] (Fin (- 1)) None
               [QueryTree ''not'' [] (Fin (- 1)) None [species_is_setosa],
                QueryTree ''not'' [] (Fin (- 1)) None [sepal_over_5]])) = Inr g"
    and sem: "\<And>d a b. matches example_sem d fA = Some a \<Longrightarrow> matches example_sem d fB = Some b \<Longrightarrow>
            matches example_sem d f = Some (\<not> (a \<and> b)) \<and> matches example_sem d g = Some (\<not> (a \<and> b))"
    by blast
  with cA cB have "fA = ?FA" "fB = ?FB" by simp_all
  with sem[of setosa_49 True False] mA mB
  have fg: "matches example_sem setosa_49 f = Some True \<and> matches example_sem setosa_49 g = Some True"
    by simp
  from T k v mA
  have n: "matches example_sem setosa_49
     (MObj [(''species'', MObj [(''$not'', MObj [(''$eq'', MVal (IString ''setosa''))])])])
     = Some False"
    by simp
  from vA vB mA mB f g fg k v n show ?thesis by blast
qed

text \<open>
  C6 (as amended). For a leaf on a text or nominal field and each of the operations \<open>cn\<close>,
  \<open>cni\<close>, \<open>sw\<close>, \<open>swi\<close>, \<open>ew\<close>, \<open>ewi\<close>, the compiled predicate embeds a regular expression
  that matches a document string exactly when the string contains, starts with or ends
  with the coerced literal (case-insensitively for the \<open>i\<close> variants); the coerced literal
  is the right literal itself on a text field and its first 255 characters on a nominal
  field. Every metacharacter of the literal is escaped first, so the escaped literal parses
  as the sequence of its own characters.
\<close>

theorem toMongoFilter_string_match:
  "(array_get fs l = Some f \<and> (ftype f = Text \<or> ftype f = Nominal) \<and>
    ty \<notin> set combinator_types \<and> opn \<in> set string_operations \<longrightarrow>
    (\<exists>source flags.
       toMongoFilter E fs (Some (QueryTree ty opn l (Some s) cs))
         = Inr (MObj [(name f, MObj [(''$regex'', MRegExp source flags)])]) \<and>
       (\<forall>t. RegExp_test source flags t
               = Some (literal_match opn (if ftype f = Nominal then take 255 s else s) t)))) \<and>
   parse_pattern (escape_text s) = Some (map (\<lambda>c. One (Lit c)) s)"
proof (intro conjI impI)
  show "parse_pattern (escape_text s) = Some (map (\<lambda>c. One (Lit c)) s)"
    by (rule parse_contains)
  assume h: "array_get fs l = Some f \<and> (ftype f = Text \<or> ftype f = Nominal) \<and>
    ty \<notin> set combinator_types \<and> opn \<in> set string_operations"
  define lit where "lit = (if ftype f = Nominal then take 255 s else s)"
  from h have cmp: "turnInto E (JStr s) (ftype f) = Inr (IString lit)"
    unfolding lit_def by (intro turnInto_string_literal) simp
  from h have ty: "ty \<notin> set combinator_types" and f: "array_get fs l = Some f" by simp_all
  note c = compile_leaf[OF ty f cmp]
  from h have "opn = ''cn'' \<or> opn = ''cni'' \<or> opn = ''sw'' \<or> opn = ''swi'' \<or> opn = ''ew''
               \<or> opn = ''ewi''"
    by (simp add: string_operations_def)
  then have "\<exists>source flags.
       toMongoFilter E fs (Some (QueryTree ty opn l (Some s) cs))
         = Inr (MObj [(name f, MObj [(''$regex'', MRegExp source flags)])]) \<and>
       (\<forall>t. RegExp_test source flags t = Some (literal_match opn lit t))"
  proof (elim disjE)
    assume "opn = ''cn''"
    then show ?thesis
      using RegExp_test_cn(1)[of lit]
      by (simp add: c regex_filter_def escapeRegExp_def)
  next
    assume "opn = ''cni''"
    then show ?thesis
      using RegExp_test_cn(2)[of lit]
      by (simp add: c regex_filter_def escapeRegExp_def)
  next
    assume "opn = ''sw''"
    then show ?thesis
      using RegExp_test_sw(1)[of lit]
      by (simp add: c regex_filter_def escapeRegExp_def)
  next
    assume "opn = ''swi''"
    then show ?thesis
      using RegExp_test_sw(2)[of lit]
      by (simp add: c regex_filter_def escapeRegExp_def)
  next
    assume "opn = ''ew''"
    then show ?thesis
      using RegExp_test_ew(1)[of lit]
      by (simp add: c regex_filter_def escapeRegExp_def)
  next
    assume "opn = ''ewi''"
    then show ?thesis
      using RegExp_test_ew(2)[of lit]
      by (simp add: c regex_filter_def escapeRegExp_def)
  qed
  then show "\<exists>source flags.
       toMongoFilter E fs (Some (QueryTree ty opn l (Some s) cs))
         = Inr (MObj [(name f, MObj [(''$regex'', MRegExp source flags)])]) \<and>
       (\<forall>t. RegExp_test source flags t
               = Some (literal_match opn (if ftype f = Nominal then take 255 s else s) t))"
    unfolding lit_def .
qed

theorem toMongoFilter_string_match_witness:
  "array_get iris_features (Fin 1) = Some \<lparr>index = 1, ftype = Nominal, name = ''species''\<rparr> \<and>
   ''single'' \<notin> set combinator_types \<and> ''cn'' \<in> set string_operations \<and>
   toMongoFilter unspecified_engine iris_features
     (Some (QueryTree ''single'' ''cn'' (Fin 1) (Some ''a.b*'') []))
     = Inr (MObj [(''species'', MObj [(''$regex'', MRegExp (escape_text ''a.b*'') [])])]) \<and>
   escape_text ''a.b*'' = [CHR ''a'', backslash, CHR ''.'', CHR ''b'', backslash, CHR ''*''] \<and>
   RegExp_test (escape_text ''a.b*'') [] ''xa.b*y'' = Some True \<and>
   RegExp_test (escape_text ''a.b*'') [] ''xaxbby'' = Some False \<and>
   RegExp_test ''a.b*'' [] ''xaxbby'' = Some True"
proof -
  let ?f = "\<lparr>index = 1, ftype = Nominal, name = ''species''\<rparr>"
  have 1: "array_get iris_features (Fin 1) = Some ?f"
    by (simp add: iris_features_def)
  have 2: "''single'' \<notin> set combinator_types"
    by (simp add: combinator_types_def)
  have 3: "''cn'' \<in> set string_operations"
    by (simp add: string_operations_def)
  have 4: "toMongoFilter unspecified_engine iris_features
     (Some (QueryTree ''single'' ''cn'' (Fin 1) (Some ''a.b*'') []))
     = Inr (MObj [(''species'', MObj [(''$regex'', MRegExp (escape_text ''a.b*'') [])])])"
    by (simp add: toMongoFilter.simps iris_features_def turnInto_def regex_filter_def
        escapeRegExp_def)
  have 5: "escape_text ''a.b*''
           = [CHR ''a'', backslash, CHR ''.'', CHR ''b'', backslash, CHR ''*'']"
    by (simp add: escape_text_def regexp_special_def is_whitespace_def backslash_def)
  from toMongoFilter_string_match[of iris_features "Fin 1" ?f "''single''" "''cn''"
      unspecified_engine "''a.b*''" "[]"] 1 2 3
  obtain source flags where
    "toMongoFilter unspecified_engine iris_features
       (Some (QueryTree ''single'' ''cn'' (Fin 1) (Some ''a.b*'') []))
       = Inr (MObj [(''species'', MObj [(''$regex'', MRegExp source flags)])])"
    and t: "\<And>t. RegExp_test source flags t = Some (literal_match ''cn'' (take 255 ''a.b*'') t)"
    by auto
  with 4 have "source = escape_text ''a.b*''" "flags = []" by simp_all
  with t have t': "\<And>t. RegExp_test (escape_text ''a.b*'') [] t
                      = Some (literal_match ''cn'' ''a.b*'' t)"
    by simp
  have 6: "RegExp_test (escape_text ''a.b*'') [] ''xa.b*y'' = Some True"
    unfolding t' by (simp add: literal_match_def canonicalize_def sublist_code prefix_code)
  have 7: "RegExp_test (escape_text ''a.b*'') [] ''xaxbby'' = Some False"
    unfolding t' by (simp add: literal_match_def canonicalize_def sublist_code prefix_code)
  have 8: "RegExp_test ''a.b*'' [] ''xaxbby'' = Some True"
    by (simp add: RegExp_test_def parse_pattern.simps quantified_def backslash_def
        regex_search_def atom_matches_def canonicalize_def)
  from 1 2 3 4 5 6 7 8 show ?thesis by blast
qed

lemma escape_text_plain: "\<not> regexp_special c \<Longrightarrow> escape_text (replicate n c) = replicate n c"
  by (induction n) (simp_all add: escape_text_def)

theorem toMongoFilter_long_literal_counterexample:
  "toMongoFilter unspecified_engine iris_features
     (Some (QueryTree ''single'' ''cn'' (Fin 1) (Some (replicate 256 (CHR ''a''))) []))
     = Inr (MObj [(''species'', MObj [(''$regex'', MRegExp (replicate 255 (CHR ''a'')) [])])]) \<and>
   RegExp_test (replicate 255 (CHR ''a'')) [] (replicate 255 (CHR ''a'')) = Some True \<and>
   \<not> sublist (replicate 256 (CHR ''a'')) (replicate 255 (CHR ''a''))"
proof -
  have plain: "\<not> regexp_special (CHR ''a'')"
    by (simp add: regexp_special_def is_whitespace_def backslash_def)
  have esc: "escape_text (replicate 255 (CHR ''a'')) = replicate 255 (CHR ''a'')"
    using plain by (rule escape_text_plain)
  have cmp: "turnInto unspecified_engine (JStr (replicate 256 (CHR ''a''))) Nominal
             = Inr (IString (replicate 255 (CHR ''a'')))"
    by (simp add: turnInto_def)
  have 1: "toMongoFilter unspecified_engine iris_features
     (Some (QueryTree ''single'' ''cn'' (Fin 1) (Some (replicate 256 (CHR ''a''))) []))
     = Inr (MObj [(''species'', MObj [(''$regex'', MRegExp (replicate 255 (CHR ''a'')) [])])])"
    using compile_leaf[of "''single''" iris_features "Fin 1"
        "\<lparr>index = 1, ftype = Nominal, name = ''species''\<rparr>" unspecified_engine
        "replicate 256 (CHR ''a'')" "IString (replicate 255 (CHR ''a''))" "''cn''" "[]"] cmp
    by (simp add: combinator_types_def iris_features_def regex_filter_def escapeRegExp_def esc)
  have "RegExp_test (escape_text (replicate 255 (CHR ''a''))) [] (replicate 255 (CHR ''a''))
        = Some (literal_match ''cn'' (replicate 255 (CHR ''a'')) (replicate 255 (CHR ''a'')))"
    by (rule RegExp_test_cn(1))
  then have 2: "RegExp_test (replicate 255 (CHR ''a'')) [] (replicate 255 (CHR ''a'')) = Some True"
    by (simp add: esc literal_match_def)
  have 3: "\<not> sublist (replicate 256 (CHR ''a'')) (replicate 255 (CHR ''a''))"
    using sublist_length_le[of "replicate 256 (CHR ''a'')" "replicate 255 (CHR ''a'')"] by auto
  from 1 2 3 show ?thesis by blast
qed

text \<open>
  C7. The \<open>null\<close> operation does not compile to a test of the feature's field. Lines
  203-206 assign \<open>filter.$or = [{$exists: false}, {$eq: null}]\<close>: unlike every sibling
  case, which assigns \<open>filter[feature.name]\<close>, the field name does not occur, and the two
  alternatives are bare operator documents, which are not filters (MongoDB rejects them
  as unknown top-level operators). The compiled filter is the same for every field and
  holds of no document.
\<close>

theorem toMongoFilter_null_operation:
  "toMongoFilter E [\<lparr>index = 0, ftype = Nominal, name = ''species''\<rparr>]
     (Some (QueryTree ''single'' ''null'' (Fin 0) None []))
     = Inr (MObj [(''$or'', MArr [MObj [(''$exists'', MVal (IBoolean False))],
                                 MObj [(''$eq'', MVal INull)]])]) \<and>
   toMongoFilter E [\<lparr>index = 0, ftype = Numeric, name = ''sepalLength''\<rparr>]
     (Some (QueryTree ''single'' ''null'' (Fin 0) None []))
     = Inr (MObj [(''$or'', MArr [MObj [(''$exists'', MVal (IBoolean False))],
                                 MObj [(''$eq'', MVal INull)]])]) \<and>
   matches sem d (MObj [(''$or'', MArr [MObj [(''$exists'', MVal (IBoolean False))],
                                       MObj [(''$eq'', MVal INull)]])]) = None"
  by (simp add: toMongoFilter.simps turnInto_def matches_eval)

section \<open>Properties of the data source\<close>

lemma foldl_snoc: "foldl (\<lambda>queue i. queue @ [i]) queue instances = queue @ instances"
  by (induction instances arbitrary: queue) simp_all

lemma pushInstances_success:
  assumes "connect S = None"
    and "insertMany S (map (to_row (source_fields this)) instances) = None"
  shows "pushInstances S this instances
         = (Inr (), this\<lparr>updateQueue := updateQueue this @ instances\<rparr>)"
  using assms by (simp add: pushInstances_def foldl_snoc)

lemma pushInstances_cases:
  "pushInstances S this instances =
     (case connect S of
        Some e \<Rightarrow> (Inl e, this)
      | None \<Rightarrow>
          (case insertMany S (map (to_row (source_fields this)) instances) of
             Some e \<Rightarrow> (Inl e, this)
           | None \<Rightarrow> (Inr (), this\<lparr>updateQueue := updateQueue this @ instances\<rparr>)))"
  by (simp add: pushInstances_def foldl_snoc split: option.splits)

lemma pushInstances_Inr:
  assumes "pushInstances S this instances = (Inr u, this')"
  shows "this' = this\<lparr>updateQueue := updateQueue this @ instances\<rparr>"
  using assms unfolding pushInstances_cases by (auto split: option.splits)

lemma pushInstances_Inl:
  assumes "pushInstances S this instances = (Inl e, this')"
  shows "this' = this"
  using assms unfolding pushInstances_cases by (auto split: option.splits)

lemma drain_take:
  "drain acc queue =
     (acc @ take (DEEPINT_UPDATE_INSTANCES_LIMIT - length acc) queue,
      drop (DEEPINT_UPDATE_INSTANCES_LIMIT - length acc) queue)"
proof (induction acc queue rule: drain.induct)
  case (1 acc queue)
  show ?case
  proof (cases "length acc < DEEPINT_UPDATE_INSTANCES_LIMIT \<and> length queue > 0")
    case True
    then obtain x xs where q: "queue = x # xs"
      by (cases queue) auto
    from True obtain k where k: "DEEPINT_UPDATE_INSTANCES_LIMIT - length acc = Suc k"
      by (cases "DEEPINT_UPDATE_INSTANCES_LIMIT - length acc") auto
    then have k': "DEEPINT_UPDATE_INSTANCES_LIMIT - Suc (length acc) = k"
      by simp
    have "drain acc queue = drain (acc @ [hd queue]) (tl queue)"
      by (subst drain.simps) (simp only: True simp_thms if_True)
    also have "\<dots> = ((acc @ [hd queue]) @ take (DEEPINT_UPDATE_INSTANCES_LIMIT - length (acc @ [hd queue])) (tl queue),
                     drop (DEEPINT_UPDATE_INSTANCES_LIMIT - length (acc @ [hd queue])) (tl queue))"
      using True by (rule "1.IH")
    also have "\<dots> = (acc @ take (DEEPINT_UPDATE_INSTANCES_LIMIT - length acc) queue,
                     drop (DEEPINT_UPDATE_INSTANCES_LIMIT - length acc) queue)"
      by (simp add: q k k')
    finally show ?thesis .
  next
    case False
    have "drain acc queue = (acc, queue)"
      by (subst drain.simps) (simp only: False if_False)
    moreover from False have "DEEPINT_UPDATE_INSTANCES_LIMIT - length acc = 0 \<or> queue = []"
      by auto
    ultimately show ?thesis
      by auto
  qed
qed

lemma runUpdateService_turn_signalled:
  assumes "updateSem this = Suc n" and "requiredUpdate this"
  shows "runUpdateService_turn this =
           Some (Some (take DEEPINT_UPDATE_INSTANCES_LIMIT (updateQueue this)),
                 this\<lparr>updateSem := n,
                      updateQueue := drop DEEPINT_UPDATE_INSTANCES_LIMIT (updateQueue this),
                      requiredUpdate := False\<rparr>)"
  using assms by (simp add: runUpdateService_turn_def acquire_def drain_take)

text \<open>
  C9. \<open>DataSource.pushInstances\<close>, when connecting and inserting succeed, appends the given
  instances, in order, to the tail of the pending queue and does nothing else: the
  semaphore's counter and the flag are as they were, so by itself it does not signal the
  worker, which stays blocked when no signal was pending. The signal is \<open>noticeUpdate\<close>:
  it sets the flag and increments the counter, and leaves the queue alone. The push route
  calls the one and then the other: whenever it answers 200, the sanitized instances of
  the body have been appended to the queue, in order, the counter has been incremented,
  and the worker's next turn takes the signal and hands the first 100 queued instances,
  in order, to the sender.
\<close>

theorem pushInstances_enqueues:
  "(pushInstances S this instances = (Inr (), this') \<longrightarrow>
      this' = this\<lparr>updateQueue := updateQueue this @ instances\<rparr> \<and>
      updateQueue this' = updateQueue this @ instances \<and>
      updateSem this' = updateSem this \<and>
      requiredUpdate this' = requiredUpdate this) \<and>
   (connect S = None \<and> insertMany S (map (to_row (source_fields this)) instances) = None \<longrightarrow>
      pushInstances S this instances
        = (Inr (), this\<lparr>updateQueue := updateQueue this @ instances\<rparr>)) \<and>
   (updateSem this = 0 \<longrightarrow> runUpdateService_turn this = None) \<and>
   noticeUpdate this = this\<lparr>requiredUpdate := True, updateSem := Suc (updateSem this)\<rparr> \<and>
   updateQueue (noticeUpdate this) = updateQueue this \<and>
   (StatusController_pushInstances E S authorized body this = (Inr 200, this'') \<longrightarrow>
      (\<exists>pushed. sanitizeInstances E (source_fields this) (if ToBoolean body then body else JArr [])
                   = Inr pushed \<and>
         pushInstances S this pushed = (Inr (), this\<lparr>updateQueue := updateQueue this @ pushed\<rparr>) \<and>
         this'' = noticeUpdate (this\<lparr>updateQueue := updateQueue this @ pushed\<rparr>) \<and>
         updateQueue this'' = updateQueue this @ pushed \<and>
         updateSem this'' = Suc (updateSem this) \<and> requiredUpdate this'' \<and>
         runUpdateService_turn this'' =
           Some (Some (take DEEPINT_UPDATE_INSTANCES_LIMIT (updateQueue this @ pushed)),
                 this\<lparr>updateQueue := drop DEEPINT_UPDATE_INSTANCES_LIMIT (updateQueue this @ pushed),
                      requiredUpdate := False\<rparr>)))"
proof (intro conjI impI)
  assume "pushInstances S this instances = (Inr (), this')"
  then have eq: "this' = this\<lparr>updateQueue := updateQueue this @ instances\<rparr>"
    by (rule pushInstances_Inr)
  then show "this' = this\<lparr>updateQueue := updateQueue this @ instances\<rparr>"
    "updateQueue this' = updateQueue this @ instances"
    "updateSem this' = updateSem this"
    "requiredUpdate this' = requiredUpdate this"
    by simp_all
next
  assume "connect S = None \<and> insertMany S (map (to_row (source_fields this)) instances) = None"
  then show "pushInstances S this instances
        = (Inr (), this\<lparr>updateQueue := updateQueue this @ instances\<rparr>)"
    by (simp add: pushInstances_success)
next
  assume "updateSem this = 0"
  then show "runUpdateService_turn this = None"
    by (simp add: runUpdateService_turn_def acquire_def)
next
  show "noticeUpdate this = this\<lparr>requiredUpdate := True, updateSem := Suc (updateSem this)\<rparr>"
    "updateQueue (noticeUpdate this) = updateQueue this"
    by (simp_all add: noticeUpdate_def release_def)
next
  assume h: "StatusController_pushInstances E S authorized body this = (Inr 200, this'')"
  let ?body = "if ToBoolean body then body else JArr []"
  from h have auth: authorized
    by (auto simp: StatusController_pushInstances_def split: if_splits)
  with h obtain pushed where s: "sanitizeInstances E (source_fields this) ?body = Inr pushed"
    by (cases "sanitizeInstances E (source_fields this) ?body")
       (auto simp: StatusController_pushInstances_def)
  obtain res mid where p: "pushInstances S this pushed = (res, mid)"
    by (cases "pushInstances S this pushed")
  with h auth s obtain u where res: "res = Inr u" and fin: "this'' = noticeUpdate mid"
    by (cases res) (auto simp: StatusController_pushInstances_def)
  from p res have mid: "mid = this\<lparr>updateQueue := updateQueue this @ pushed\<rparr>"
    by (intro pushInstances_Inr) simp
  from fin mid have sem: "updateSem this'' = Suc (updateSem this)" and flag: "requiredUpdate this''"
    and queue: "updateQueue this'' = updateQueue this @ pushed"
    by (simp_all add: noticeUpdate_def release_def)
  have "runUpdateService_turn this'' =
          Some (Some (take DEEPINT_UPDATE_INSTANCES_LIMIT (updateQueue this'')),
                this''\<lparr>updateSem := updateSem this,
                      updateQueue := drop DEEPINT_UPDATE_INSTANCES_LIMIT (updateQueue this''),
                      requiredUpdate := False\<rparr>)"
    using sem flag by (rule runUpdateService_turn_signalled)
  also have "this''\<lparr>updateSem := updateSem this,
                      updateQueue := drop DEEPINT_UPDATE_INSTANCES_LIMIT (updateQueue this''),
                      requiredUpdate := False\<rparr>
             = this\<lparr>updateQueue := drop DEEPINT_UPDATE_INSTANCES_LIMIT (updateQueue this @ pushed),
                      requiredUpdate := False\<rparr>"
    using fin mid by (simp add: noticeUpdate_def release_def)
  finally have turn: "runUpdateService_turn this'' =
           Some (Some (take DEEPINT_UPDATE_INSTANCES_LIMIT (updateQueue this @ pushed)),
                 this\<lparr>updateQueue := drop DEEPINT_UPDATE_INSTANCES_LIMIT (updateQueue this @ pushed),
                      requiredUpdate := False\<rparr>)"
    by (simp add: queue)
  from p res mid
  have p': "pushInstances S this pushed = (Inr (), this\<lparr>updateQueue := updateQueue this @ pushed\<rparr>)"
    by simp
  from fin mid
  have fin': "this'' = noticeUpdate (this\<lparr>updateQueue := updateQueue this @ pushed\<rparr>)"
    by simp
  from s p' fin' queue sem flag turn
  show "\<exists>pushed. sanitizeInstances E (source_fields this) ?body = Inr pushed \<and>
         pushInstances S this pushed = (Inr (), this\<lparr>updateQueue := updateQueue this @ pushed\<rparr>) \<and>
         this'' = noticeUpdate (this\<lparr>updateQueue := updateQueue this @ pushed\<rparr>) \<and>
         updateQueue this'' = updateQueue this @ pushed \<and>
         updateSem this'' = Suc (updateSem this) \<and> requiredUpdate this'' \<and>
         runUpdateService_turn this'' =
           Some (Some (take DEEPINT_UPDATE_INSTANCES_LIMIT (updateQueue this @ pushed)),
                 this\<lparr>updateQueue := drop DEEPINT_UPDATE_INSTANCES_LIMIT (updateQueue this @ pushed),
                      requiredUpdate := False\<rparr>)"
    by (intro exI[of _ pushed] conjI)
qed

theorem pushInstances_enqueues_witness:
  "pushInstances iris_storage iris_source [[INull, IString ''setosa'']]
     = (Inr (), iris_source\<lparr>updateQueue := [[INull, IString ''setosa'']]\<rparr>) \<and>
   updateQueue (iris_source\<lparr>updateQueue := [[INull, IString ''setosa'']]\<rparr>)
     = updateQueue iris_source @ [[INull, IString ''setosa'']] \<and>
   updateSem (iris_source\<lparr>updateQueue := [[INull, IString ''setosa'']]\<rparr>) = updateSem iris_source \<and>
   updateSem iris_source = 0 \<and>
   runUpdateService_turn iris_source = None \<and>
   StatusController_pushInstances unspecified_engine iris_storage True
       (JArr [JObj [(''species'', JStr ''setosa'')]]) iris_source
     = (Inr 200, iris_source\<lparr>updateQueue := [[INull, IString ''setosa'']],
                            requiredUpdate := True, updateSem := 1\<rparr>) \<and>
   (\<exists>pushed. sanitizeInstances unspecified_engine (source_fields iris_source)
                (JArr [JObj [(''species'', JStr ''setosa'')]]) = Inr pushed \<and>
      updateQueue (iris_source\<lparr>updateQueue := [[INull, IString ''setosa'']],
                            requiredUpdate := True, updateSem := 1\<rparr>)
        = updateQueue iris_source @ pushed \<and>
      updateSem (iris_source\<lparr>updateQueue := [[INull, IString ''setosa'']],
                            requiredUpdate := True, updateSem := 1\<rparr>)
        = Suc (updateSem iris_source) \<and>
      runUpdateService_turn (iris_source\<lparr>updateQueue := [[INull, IString ''setosa'']],
                            requiredUpdate := True, updateSem := 1\<rparr>)
        = Some (Some (take DEEPINT_UPDATE_INSTANCES_LIMIT (updateQueue iris_source @ pushed)),
                iris_source\<lparr>updateQueue := drop DEEPINT_UPDATE_INSTANCES_LIMIT
                                               (updateQueue iris_source @ pushed),
                            requiredUpdate := False\<rparr>))"
proof -
  let ?q = "[[INull, IString ''setosa'']]"
  let ?body = "JArr [JObj [(''species'', JStr ''setosa'')]]"
  let ?end = "iris_source\<lparr>updateQueue := ?q, requiredUpdate := True, updateSem := 1\<rparr>"
  have 0: "updateSem iris_source = 0"
    by (simp add: iris_source_def)
  have 1: "pushInstances iris_storage iris_source ?q
           = (Inr (), iris_source\<lparr>updateQueue := ?q\<rparr>)"
    by (simp add: pushInstances_def iris_storage_def iris_source_def)
  have 2: "StatusController_pushInstances unspecified_engine iris_storage True ?body iris_source
           = (Inr 200, ?end)"
    by (simp add: StatusController_pushInstances_def sanitizeInstances_def pushInstances_def
        noticeUpdate_def release_def iris_storage_def iris_source_def iris_features_def
        turnInto_def)
  note T = pushInstances_enqueues[where S = iris_storage and this = iris_source
      and instances = ?q and this' = "iris_source\<lparr>updateQueue := ?q\<rparr>"
      and E = unspecified_engine and authorized = True and body = ?body and this'' = ?end]
  from T 1 have 3: "updateQueue (iris_source\<lparr>updateQueue := ?q\<rparr>) = updateQueue iris_source @ ?q"
    and 4: "updateSem (iris_source\<lparr>updateQueue := ?q\<rparr>) = updateSem iris_source"
    by blast+
  from T 0 have 5: "runUpdateService_turn iris_source = None"
    by blast
  have b: "(if ToBoolean ?body then ?body else JArr []) = ?body"
    by simp
  from T 2 have 6: "\<exists>pushed. sanitizeInstances unspecified_engine (source_fields iris_source) ?body
                      = Inr pushed \<and>
      updateQueue ?end = updateQueue iris_source @ pushed \<and>
      updateSem ?end = Suc (updateSem iris_source) \<and>
      runUpdateService_turn ?end
        = Some (Some (take DEEPINT_UPDATE_INSTANCES_LIMIT (updateQueue iris_source @ pushed)),
                iris_source\<lparr>updateQueue := drop DEEPINT_UPDATE_INSTANCES_LIMIT
                                               (updateQueue iris_source @ pushed),
                            requiredUpdate := False\<rparr>)"
    unfolding b by blast
  from 0 1 2 3 4 5 6 show ?thesis by blast
qed

text \<open>
  The push of one instance to a source whose counter is 0 succeeds and the instance is
  queued, but the counter is still 0, the flag still unset, and the worker's turn still
  waits at \<open>acquire\<close>: \<open>pushInstances\<close> has signalled nothing.
\<close>

theorem pushInstances_no_signal_counterexample:
  "fst (pushInstances iris_storage iris_source [[INull, IString ''setosa'']]) = Inr () \<and>
   updateQueue (snd (pushInstances iris_storage iris_source [[INull, IString ''setosa'']]))
     = [[INull, IString ''setosa'']] \<and>
   updateSem iris_source = 0 \<and>
   updateSem (snd (pushInstances iris_storage iris_source [[INull, IString ''setosa'']])) = 0 \<and>
   requiredUpdate (snd (pushInstances iris_storage iris_source [[INull, IString ''setosa'']]))
     = False \<and>
   runUpdateService_turn (snd (pushInstances iris_storage iris_source [[INull, IString ''setosa'']]))
     = None"
  by (simp add: pushInstances_def iris_storage_def iris_source_def runUpdateService_turn_def
      acquire_def)

text \<open>
  C10. When the insert fails, \<open>pushInstances\<close> rejects with the backend's error and the
  state, the update queue included, is the one it started from; the route then passes the
  error on without calling \<open>noticeUpdate\<close>, so nothing is enqueued and nothing signalled.
  (The same holds when connecting fails.)
\<close>

theorem pushInstances_failed_insert:
  "(connect S = None \<and> insertMany S (map (to_row (source_fields this)) instances) = Some e \<longrightarrow>
      pushInstances S this instances = (Inl e, this)) \<and>
   (pushInstances S this instances = (Inl e', this') \<longrightarrow>
      this' = this \<and> updateQueue this' = updateQueue this) \<and>
   (authorized \<and>
    sanitizeInstances E (source_fields this) (if ToBoolean body then body else JArr []) = Inr pushed \<and>
    connect S = None \<and> insertMany S (map (to_row (source_fields this)) pushed) = Some e \<longrightarrow>
      StatusController_pushInstances E S authorized body this = (Inl e, this))"
proof (intro conjI impI)
  assume "connect S = None \<and> insertMany S (map (to_row (source_fields this)) instances) = Some e"
  then show "pushInstances S this instances = (Inl e, this)"
    by (simp add: pushInstances_cases)
next
  assume "pushInstances S this instances = (Inl e', this')"
  then have "this' = this" by (rule pushInstances_Inl)
  then show "this' = this" "updateQueue this' = updateQueue this" by simp_all
next
  assume "authorized \<and>
    sanitizeInstances E (source_fields this) (if ToBoolean body then body else JArr []) = Inr pushed \<and>
    connect S = None \<and> insertMany S (map (to_row (source_fields this)) pushed) = Some e"
  then show "StatusController_pushInstances E S authorized body this = (Inl e, this)"
    by (simp add: StatusController_pushInstances_def pushInstances_cases)
qed

theorem pushInstances_failed_insert_witness:
  "connect failing_storage = None \<and>
   insertMany failing_storage (map (to_row (source_fields iris_source)) [[INull, IString ''setosa'']])
     = Some (MongoError ''write failed'') \<and>
   pushInstances failing_storage iris_source [[INull, IString ''setosa'']]
     = (Inl (MongoError ''write failed''), iris_source) \<and>
   updateQueue iris_source = [] \<and>
   sanitizeInstances unspecified_engine (source_fields iris_source)
     (JArr [JObj [(''species'', JStr ''setosa'')]]) = Inr [[INull, IString ''setosa'']] \<and>
   StatusController_pushInstances unspecified_engine failing_storage True
     (JArr [JObj [(''species'', JStr ''setosa'')]]) iris_source
     = (Inl (MongoError ''write failed''), iris_source)"
proof -
  let ?q = "[[INull, IString ''setosa'']]"
  let ?body = "JArr [JObj [(''species'', JStr ''setosa'')]]"
  have 1: "connect failing_storage = None"
    by (simp add: failing_storage_def)
  have 2: "insertMany failing_storage (map (to_row (source_fields iris_source)) ?q)
           = Some (MongoError ''write failed'')"
    by (simp add: failing_storage_def)
  have 3: "sanitizeInstances unspecified_engine (source_fields iris_source) ?body = Inr ?q"
    by (simp add: sanitizeInstances_def iris_source_def iris_features_def turnInto_def)
  have 4: "updateQueue iris_source = []"
    by (simp add: iris_source_def)
  note T = pushInstances_failed_insert[of failing_storage iris_source ?q
      "MongoError ''write failed''" _ _ True unspecified_engine ?body ?q]
  from T 1 2 have 5: "pushInstances failing_storage iris_source ?q
                      = (Inl (MongoError ''write failed''), iris_source)"
    by blast
  from T 1 2 3 have 6: "StatusController_pushInstances unspecified_engine failing_storage True
                          ?body iris_source = (Inl (MongoError ''write failed''), iris_source)"
    by simp
  from 1 2 3 4 5 6 show ?thesis by blast
qed

lemma getNominalValues_nominal:
  assumes "array_get (source_fields this) feature = Some f" and "ftype f = Nominal"
  shows "getNominalValues E S this flt query feature =
     ebind (toMongoFilter E (source_fields this) flt) (\<lambda>cond1.
       case connect S of
         Some e \<Rightarrow> Inl e
       | None \<Rightarrow>
           ebind (find_toArray S cond1 [(name f, 1)] [(name f, 1)] 128) (\<lambda>docs.
             collect (map (\<lambda>doc.
                 ToString E (if ToBoolean (doc_get doc (name f))
                             then doc_get doc (name f) else JStr []))
               (filter (\<lambda>doc. ToBoolean (doc_get doc (name f))) docs))))"
  using assms by (simp add: getNominalValues_def Let_def)

lemma truthy_values:
  "map (\<lambda>doc. ToString E (if ToBoolean (doc_get doc k) then doc_get doc k else JStr []))
     (filter (\<lambda>doc. ToBoolean (doc_get doc k)) docs)
   = map (ToString E) (filter ToBoolean (map (\<lambda>doc. doc_get doc k) docs))"
  by (induction docs) simp_all

lemma string_values:
  assumes "list_all string_or_null vals"
    and "map Inr vs = map (ToString E) (filter ToBoolean vals)"
  shows "vs = filter (\<lambda>s. s \<noteq> []) (map string_of vals)"
  using assms
proof (induction vals arbitrary: vs)
  case Nil
  then show ?case by simp
next
  case (Cons v vals)
  from Cons.prems(1) have v: "string_or_null v" and rest: "list_all string_or_null vals"
    by simp_all
  show ?case
  proof (cases "ToBoolean v")
    case False
    with v have "string_of v = []" by (cases v) simp_all
    with False Cons.prems(2) Cons.IH[OF rest] show ?thesis by simp
  next
    case True
    with v obtain s where s: "v = JStr s" "s \<noteq> []" by (cases v) simp_all
    with True Cons.prems(2) obtain vs' where vs: "vs = s # vs'"
      and "map Inr vs' = map (ToString E) (filter ToBoolean vals)"
      by (cases vs) auto
    with Cons.IH[OF rest] s show ?thesis by simp
  qed
qed

text \<open>
  C8 (as amended). For a feature index whose declared type is nominal, and a cursor that
  honours its limit, \<open>getNominalValues\<close> returns at most 128 values: the string forms of
  the truthy field values of the documents the cursor yields, in the cursor's order.
  Duplicates are kept. When the field holds strings (or is null or absent), as this
  adapter writes nominal fields, the returned values are exactly the non-empty strings
  among them, so each is non-empty, and they are in ascending order whenever the cursor
  yields the documents in ascending order of the field.
\<close>

theorem getNominalValues_values:
  "array_get (source_fields this) feature = Some f \<and> ftype f = Nominal \<and> honours_limit S \<and>
   getNominalValues E S this flt query feature = Inr vs \<longrightarrow>
     length vs \<le> 128 \<and>
     (\<exists>cond1 docs.
        toMongoFilter E (source_fields this) flt = Inr cond1 \<and>
        find_toArray S cond1 [(name f, 1)] [(name f, 1)] 128 = Inr docs \<and>
        map Inr vs = map (ToString E) (filter ToBoolean (map (\<lambda>doc. doc_get doc (name f)) docs)) \<and>
        (list_all string_or_null (map (\<lambda>doc. doc_get doc (name f)) docs) \<longrightarrow>
           vs = filter (\<lambda>s. s \<noteq> []) (map (\<lambda>doc. string_of (doc_get doc (name f))) docs) \<and>
           [] \<notin> set vs \<and>
           (sorted (map (\<lambda>doc. string_of (doc_get doc (name f))) docs) \<longrightarrow> sorted vs)))"
proof (intro impI)
  assume h: "array_get (source_fields this) feature = Some f \<and> ftype f = Nominal \<and>
             honours_limit S \<and> getNominalValues E S this flt query feature = Inr vs"
  let ?vals = "\<lambda>docs. map (\<lambda>doc. doc_get doc (name f)) docs"
  from h have "ebind (toMongoFilter E (source_fields this) flt) (\<lambda>cond1.
       case connect S of
         Some e \<Rightarrow> Inl e
       | None \<Rightarrow>
           ebind (find_toArray S cond1 [(name f, 1)] [(name f, 1)] 128) (\<lambda>docs.
             collect (map (\<lambda>doc.
                 ToString E (if ToBoolean (doc_get doc (name f))
                             then doc_get doc (name f) else JStr []))
               (filter (\<lambda>doc. ToBoolean (doc_get doc (name f))) docs)))) = Inr vs"
    using getNominalValues_nominal[of this feature f E S flt query] by auto
  then obtain cond1 where c: "toMongoFilter E (source_fields this) flt = Inr cond1"
    and r: "(case connect S of
         Some e \<Rightarrow> Inl e
       | None \<Rightarrow>
           ebind (find_toArray S cond1 [(name f, 1)] [(name f, 1)] 128) (\<lambda>docs.
             collect (map (\<lambda>doc.
                 ToString E (if ToBoolean (doc_get doc (name f))
                             then doc_get doc (name f) else JStr []))
               (filter (\<lambda>doc. ToBoolean (doc_get doc (name f))) docs)))) = Inr vs"
    by (rule ebindE)
  from r have "ebind (find_toArray S cond1 [(name f, 1)] [(name f, 1)] 128) (\<lambda>docs.
             collect (map (\<lambda>doc.
                 ToString E (if ToBoolean (doc_get doc (name f))
                             then doc_get doc (name f) else JStr []))
               (filter (\<lambda>doc. ToBoolean (doc_get doc (name f))) docs))) = Inr vs"
    by (cases "connect S") simp_all
  then obtain docs where d: "find_toArray S cond1 [(name f, 1)] [(name f, 1)] 128 = Inr docs"
    and "collect (map (\<lambda>doc.
                 ToString E (if ToBoolean (doc_get doc (name f))
                             then doc_get doc (name f) else JStr []))
               (filter (\<lambda>doc. ToBoolean (doc_get doc (name f))) docs)) = Inr vs"
    by (rule ebindE)
  then have m: "map Inr vs = map (ToString E) (filter ToBoolean (?vals docs))"
    by (simp add: collect_Inr_iff truthy_values)
  from h d have "length docs \<le> 128" by (auto simp: honours_limit_def)
  moreover from m have "length vs = length (filter ToBoolean (?vals docs))"
    by (metis length_map)
  moreover have "length (filter ToBoolean (?vals docs)) \<le> length docs"
    using length_filter_le[of ToBoolean "?vals docs"] by (simp only: length_map)
  ultimately have len: "length vs \<le> 128" by (simp only: order_trans)
  have str: "vs = filter (\<lambda>s. s \<noteq> []) (map (\<lambda>doc. string_of (doc_get doc (name f))) docs) \<and>
           [] \<notin> set vs \<and>
           (sorted (map (\<lambda>doc. string_of (doc_get doc (name f))) docs) \<longrightarrow> sorted vs)"
    if s: "list_all string_or_null (?vals docs)"
  proof -
    from string_values[OF s m]
    have vs: "vs = filter (\<lambda>s. s \<noteq> []) (map (\<lambda>doc. string_of (doc_get doc (name f))) docs)"
      by (simp add: comp_def)
    then have "[] \<notin> set vs" by simp
    moreover have "sorted vs" if "sorted (map (\<lambda>doc. string_of (doc_get doc (name f))) docs)"
      unfolding vs using that by (rule sorted_wrt_filter)
    ultimately show ?thesis using vs by blast
  qed
  from len c d m str
  show "length vs \<le> 128 \<and>
     (\<exists>cond1 docs.
        toMongoFilter E (source_fields this) flt = Inr cond1 \<and>
        find_toArray S cond1 [(name f, 1)] [(name f, 1)] 128 = Inr docs \<and>
        map Inr vs = map (ToString E) (filter ToBoolean (map (\<lambda>doc. doc_get doc (name f)) docs)) \<and>
        (list_all string_or_null (map (\<lambda>doc. doc_get doc (name f)) docs) \<longrightarrow>
           vs = filter (\<lambda>s. s \<noteq> []) (map (\<lambda>doc. string_of (doc_get doc (name f))) docs) \<and>
           [] \<notin> set vs \<and>
           (sorted (map (\<lambda>doc. string_of (doc_get doc (name f))) docs) \<longrightarrow> sorted vs)))"
    by blast
qed

lemma iris_nominal_values:
  "getNominalValues unspecified_engine iris_storage iris_source None None (Fin 1)
   = Inr [''setosa'', ''setosa'', ''virginica'']"
  by (simp add: getNominalValues_def iris_source_def iris_features_def iris_storage_def
      toMongoFilter.simps doc_get_def toLowerCase_def)

theorem getNominalValues_values_witness:
  "array_get (source_fields iris_source) (Fin 1)
     = Some \<lparr>index = 1, ftype = Nominal, name = ''species''\<rparr> \<and>
   honours_limit iris_storage \<and>
   getNominalValues unspecified_engine iris_storage iris_source None None (Fin 1)
     = Inr [''setosa'', ''setosa'', ''virginica''] \<and>
   length [''setosa'', ''setosa'', ''virginica''] \<le> 128 \<and>
   (\<exists>docs. find_toArray iris_storage (MObj []) [(''species'', 1)] [(''species'', 1)] 128 = Inr docs \<and>
      list_all string_or_null (map (\<lambda>doc. doc_get doc ''species'') docs) \<and>
      sorted (map (\<lambda>doc. string_of (doc_get doc ''species'')) docs)) \<and>
   [] \<notin> set [''setosa'', ''setosa'', ''virginica''] \<and>
   sorted [''setosa'', ''setosa'', ''virginica'']"
proof -
  let ?f = "\<lparr>index = 1, ftype = Nominal, name = ''species''\<rparr>"
  let ?vs = "[''setosa'', ''setosa'', ''virginica'']"
  let ?docs = "[[(''_id'', JNum (Fin 1)), (''species'', JStr ''setosa'')],
          [(''_id'', JNum (Fin 2)), (''species'', JStr ''setosa'')],
          [(''_id'', JNum (Fin 3)), (''species'', JStr ''virginica'')]]"
  have 1: "array_get (source_fields iris_source) (Fin 1) = Some ?f"
    by (simp add: iris_source_def iris_features_def)
  have 2: "honours_limit iris_storage"
    by (simp add: honours_limit_def iris_storage_def)
  note 3 = iris_nominal_values
  have 4: "toMongoFilter unspecified_engine (source_fields iris_source) None = Inr (MObj [])"
    by (simp add: toMongoFilter.simps)
  have 5: "find_toArray iris_storage (MObj []) [(''species'', 1)] [(''species'', 1)] 128 = Inr ?docs"
    by (simp add: iris_storage_def)
  have 6: "list_all string_or_null (map (\<lambda>doc. doc_get doc ''species'') ?docs)"
    by (simp add: doc_get_def)
  have 7: "sorted (map (\<lambda>doc. string_of (doc_get doc ''species'')) ?docs)"
    by (simp add: doc_get_def)
  from getNominalValues_values[of iris_source "Fin 1" ?f iris_storage unspecified_engine
      None None ?vs] 1 2 3
  obtain cond1 docs where len: "length ?vs \<le> 128"
    and c: "toMongoFilter unspecified_engine (source_fields iris_source) None = Inr cond1"
    and d: "find_toArray iris_storage cond1 [(name ?f, 1)] [(name ?f, 1)] 128 = Inr docs"
    and s: "list_all string_or_null (map (\<lambda>doc. doc_get doc (name ?f)) docs) \<Longrightarrow>
           [] \<notin> set ?vs \<and>
           (sorted (map (\<lambda>doc. string_of (doc_get doc (name ?f))) docs) \<longrightarrow> sorted ?vs)"
    by auto
  from c 4 have "cond1 = MObj []" by simp
  with d 5 have "docs = ?docs" by simp
  with s 6 7 have 8: "[] \<notin> set ?vs" and 9: "sorted ?vs" by simp_all
  from 1 2 3 len 5 6 7 8 9 show ?thesis by blast
qed

theorem getNominalValues_duplicates_counterexample:
  "getNominalValues unspecified_engine iris_storage iris_source None None (Fin 1)
     = Inr [''setosa'', ''setosa'', ''virginica''] \<and>
   \<not> distinct [''setosa'', ''setosa'', ''virginica'']"
  by (simp add: iris_nominal_values)

end
